theory Spec2Isabelle
  imports Main "HOL-Library.AList"
begin

section \<open>Values\<close>

text \<open>
  A shallow embedding of \<^verbatim>\<open>braze.py\<close>: the record classes \<^verbatim>\<open>BrazeUser\<close> and
  \<^verbatim>\<open>BrazeEvent\<close>, and the queueing part of \<^verbatim>\<open>BrazeClient\<close> (\<^verbatim>\<open>enqueue\<close>,
  \<^verbatim>\<open>flush\<close>, the \<^verbatim>\<open>user\<close> and \<^verbatim>\<open>event\<close> helpers).

  A \<^verbatim>\<open>datetime\<close> is its fields; \<open>utcoffset\<close> is \<open>None\<close> for a naive value (what
  \<^verbatim>\<open>datetime.utcnow()\<close> returns) and the offset in minutes for an aware one. The fields
  are in the ranges the Python class enforces (year up to 9999, and so on).
\<close>

record datetime =
  year :: nat
  month :: nat
  day :: nat
  hour :: nat
  minute :: nat
  second :: nat
  microsecond :: nat
  utcoffset :: "int option"

definition digit :: "nat \<Rightarrow> char" where
  "digit n = ''0123456789'' ! (n mod 10)"

definition d2 :: "nat \<Rightarrow> string" where
  "d2 n = [digit (n div 10), digit n]"

definition d4 :: "nat \<Rightarrow> string" where
  "d4 n = [digit (n div 1000), digit (n div 100), digit (n div 10), digit n]"

definition d6 :: "nat \<Rightarrow> string" where
  "d6 n = [digit (n div 100000), digit (n div 10000), digit (n div 1000),
           digit (n div 100), digit (n div 10), digit n]"

definition iso_offset :: "int option \<Rightarrow> string" where
  "iso_offset off =
     (case off of
        None \<Rightarrow> []
      | Some m \<Rightarrow> (if m < 0 then ''-'' else ''+'')
                  @ d2 (nat \<bar>m\<bar> div 60) @ '':'' @ d2 (nat \<bar>m\<bar> mod 60))"

text \<open>
  \<^verbatim>\<open>datetime.isoformat()\<close> of the standard library:
  \<^verbatim>\<open>YYYY-MM-DDTHH:MM:SS\<close>, then \<^verbatim>\<open>.ffffff\<close> when the microsecond is not zero, then
  the offset \<^verbatim>\<open>+HH:MM\<close> of an aware value.
\<close>

definition isoformat :: "datetime \<Rightarrow> string" where
  "isoformat t =
     d4 (year t) @ ''-'' @ d2 (month t) @ ''-'' @ d2 (day t) @ ''T''
     @ d2 (hour t) @ '':'' @ d2 (minute t) @ '':'' @ d2 (second t)
     @ (if microsecond t = 0 then [] else ''.'' @ d6 (microsecond t))
     @ iso_offset (utcoffset t)"

text \<open>
  Python values that reach the record classes: \<^verbatim>\<open>None\<close>, scalars, timestamps, and
  references to a \<^verbatim>\<open>BrazeClient\<close> (an address in the store of clients). Python checks
  no type hint, so every field of a record holds any of them.
\<close>

datatype pyval =
    PyNone
  | PyBool bool
  | PyInt int
  | PyStr string
  | PyDatetime datetime
  | PyClient nat

type_synonym pydict = "(string \<times> pyval) list"

text \<open>
  A \<^verbatim>\<open>dict\<close> is an association list in insertion order with distinct keys.
  \<^verbatim>\<open>d[k] = v\<close> is \<^const>\<open>AList.update\<close>: the value is replaced in place when the key is
  there, and the pair is appended otherwise. \<^verbatim>\<open>d.update(other)\<close> stores the pairs of
  \<open>other\<close> one by one.
\<close>

definition dict_update :: "pydict \<Rightarrow> pydict \<Rightarrow> pydict" where
  "dict_update d other = fold (\<lambda>(k, v) acc. AList.update k v acc) other d"

section \<open>BrazeUser\<close>

record user =
  external_id :: pyval
  update_existing_only :: pyval
  traits :: pydict
  braze :: pyval

text \<open>\<^verbatim>\<open>BrazeUser.__init__(external_id=None, update_existing_only=False, braze=None, **kwargs)\<close>\<close>

definition BrazeUser_init :: "pyval \<Rightarrow> pyval \<Rightarrow> pyval \<Rightarrow> pydict \<Rightarrow> user" where
  "BrazeUser_init ext upd brz kwargs =
     \<lparr>external_id = ext, update_existing_only = upd,
      traits = dict_update [] kwargs, braze = brz\<rparr>"

text \<open>\<^verbatim>\<open>BrazeUser.set(**kwargs)\<close>\<close>

definition user_set :: "user \<Rightarrow> pydict \<Rightarrow> user" where
  "user_set u kwargs = u\<lparr>traits := dict_update (traits u) kwargs\<rparr>"

text \<open>
  The three branches of the loop body of \<^verbatim>\<open>as_dict\<close>: \<^verbatim>\<open>None\<close> is stored as
  \<^verbatim>\<open>None\<close>, a \<^verbatim>\<open>datetime\<close> as its \<^verbatim>\<open>isoformat()\<close>, anything else as it is.
\<close>

fun render :: "pyval \<Rightarrow> pyval" where
  "render PyNone = PyNone"
| "render (PyDatetime t) = PyStr (isoformat t)"
| "render v = v"

text \<open>
  \<^verbatim>\<open>BrazeUser.as_dict()\<close>: the two identity keys first, then one store per trait in
  the order of \<^verbatim>\<open>traits.items()\<close>. The \<^verbatim>\<open>except (ValueError, IndexError)\<close> around the
  loop has nothing to catch: no statement of the loop raises on these values.
\<close>

definition user_as_dict :: "user \<Rightarrow> pydict" where
  "user_as_dict u =
     fold (\<lambda>(k, v) user_dict. AList.update k (render v) user_dict) (traits u)
       [(''external_campaign_id'', external_id u),
        (''update_existing_only'', update_existing_only u)]"

section \<open>BrazeEvent\<close>

record event =
  ev_external_id :: pyval
  ev_name :: pyval
  ev_timestamp :: pyval
  ev_properties :: pydict
  ev_braze :: pyval

text \<open>\<^verbatim>\<open>BrazeEvent.set(**kwargs)\<close>\<close>

definition event_set :: "event \<Rightarrow> pydict \<Rightarrow> event" where
  "event_set e kwargs = e\<lparr>ev_properties := dict_update (ev_properties e) kwargs\<rparr>"

text \<open>
  The mapping \<^verbatim>\<open>BrazeEvent.as_dict()\<close> returns has the three fixed keys and, when
  the properties are not empty, the key \<^verbatim>\<open>properties\<close> holding a mapping of its own.
\<close>

record event_dict =
  ed_external_campaign_id :: pyval
  ed_name :: pyval
  ed_time :: pyval
  ed_properties :: "pydict option"

definition event_as_dict :: "event \<Rightarrow> event_dict" where
  "event_as_dict e =
     \<lparr>ed_external_campaign_id = ev_external_id e,
      ed_name = ev_name e,
      ed_time = (case ev_timestamp e of PyDatetime t \<Rightarrow> PyStr (isoformat t) | v \<Rightarrow> v),
      ed_properties =
        (if ev_properties e \<noteq> []
         then Some (fold (\<lambda>(k, v) props. AList.update k (render v) props) (ev_properties e) [])
         else None)\<rparr>"

section \<open>Errors and results\<close>

text \<open>
  The exceptions the modelled code raises or lets through. \<open>RequestException\<close> carries the
  value of the response's \<^verbatim>\<open>error\<close> field, \<open>TransportError\<close> is whatever the HTTP
  library raises for a failed connection, \<open>JSONEncodeError\<close> is what \<^verbatim>\<open>json.dumps\<close>
  (a \<^verbatim>\<open>TypeError\<close> of the standard library) or the HTTP library preparing a
  \<^verbatim>\<open>json=\<close> body raises for a value that is not JSON, and \<open>JSONDecodeError\<close> is what
  \<^verbatim>\<open>json.loads\<close> raises.
\<close>

datatype json =
    JNull
  | JBool bool
  | JNum int
  | JStr string
  | JArr "json list"
  | JObj "(string \<times> json) list"

datatype error =
    ValueError string
  | TypeError string
  | AttributeError string
  | JSONEncodeError
  | JSONDecodeError
  | TransportError string
  | RequestException json

text \<open>
  What a call hands back: \<^verbatim>\<open>None\<close>, an exception object returned as an ordinary value
  (not raised), or a newly built record.
\<close>

datatype retval =
    RetNone
  | RetException error
  | RetUser user
  | RetEvent event

text \<open>
  The result of running a call on a state: it returned a value, it raised, or the fuel
  of its loop ran out while the loop condition still held (\<open>Running\<close>, with the state
  reached so far).
\<close>

datatype 's outcome =
    Returned retval 's
  | Raised error 's
  | Running 's

fun outcome_state :: "'s outcome \<Rightarrow> 's" where
  "outcome_state (Returned r s) = s"
| "outcome_state (Raised e s) = s"
| "outcome_state (Running s) = s"

fun map_outcome :: "('s \<Rightarrow> 't) \<Rightarrow> 's outcome \<Rightarrow> 't outcome" where
  "map_outcome f (Returned r s) = Returned r (f s)"
| "map_outcome f (Raised e s) = Raised e (f s)"
| "map_outcome f (Running s) = Running (f s)"

section \<open>Requests, the client and its surroundings\<close>

text \<open>The request body of \<^verbatim>\<open>flush\<close>: \<^verbatim>\<open>api_key\<close> always, the two lists when present.\<close>

record request_body =
  rb_api_key :: string
  attributes :: "pydict list option"
  events :: "event_dict list option"

text \<open>
  A response of the HTTP library: \<^verbatim>\<open>r.ok\<close>, \<^verbatim>\<open>r.status_code\<close>, and what
  \<^verbatim>\<open>json.loads(r.content)\<close> gives (\<open>None\<close> when the content is not JSON).
\<close>

record http_response =
  ok :: bool
  status_code :: int
  content :: "json option"

text \<open>An entry of \<^verbatim>\<open>self.requests\<close>; the last three keys exist only once set.\<close>

record request_entry =
  request :: request_body
  url :: string
  timestamp :: datetime
  re_ok :: "bool option"
  re_status :: "int option"
  re_response :: "json option"

text \<open>
  \<^verbatim>\<open>BrazeConfig\<close>. \<open>pause\<close> is the time to sleep after a pass, in whole units; the
  source sleeps when it is not zero.
\<close>

record config =
  endpoint :: string
  api_key :: string
  batch_size :: int
  auto_flush :: bool
  send :: bool
  pause :: nat
  cfg_log :: "string option"

text \<open>
  The fields of \<^verbatim>\<open>BrazeClient\<close> that \<^verbatim>\<open>enqueue\<close> and \<^verbatim>\<open>flush\<close> use.
  \<^verbatim>\<open>self.requests\<close> is a \<^verbatim>\<open>dict\<close> keyed by \<^verbatim>\<open>datetime\<close>, an association list
  as above.
\<close>

record client =
  config :: config
  log :: "string option"
  requests :: "(datetime \<times> request_entry) list"
  event_queue :: "event list"
  user_queue :: "user list"

text \<open>One \<^verbatim>\<open>log.write(...)\<close>: a literal text, or the \<^verbatim>\<open>json.dumps\<close> of a value.\<close>

datatype log_write =
    LogText string
  | LogRequest request_body
  | LogResponse json

text \<open>
  Everything outside the client that the code reads or changes. \<open>ticks\<close> counts the
  calls of \<^verbatim>\<open>datetime.utcnow()\<close>, \<open>posts\<close> lists the requests handed to
  \<^verbatim>\<open>s.post\<close> (oldest first), \<open>files\<close> holds what was appended to each file, and
  \<open>slept\<close> the arguments of \<^verbatim>\<open>time.sleep\<close>. Opening and appending to the log
  file is taken to succeed.
\<close>

record world =
  ticks :: nat
  posts :: "(string \<times> request_body) list"
  files :: "string \<Rightarrow> log_write list"
  slept :: "nat list"

text \<open>
  What the surroundings answer: the time of the \<open>n\<close>-th clock reading, and the result
  of a post given all posts so far (the last one is the post being answered).
\<close>

record env =
  clock :: "nat \<Rightarrow> datetime"
  server :: "(string \<times> request_body) list \<Rightarrow> error + http_response"

definition utcnow :: "env \<Rightarrow> world \<Rightarrow> datetime \<times> world" where
  "utcnow env w = (clock env (ticks w), w\<lparr>ticks := Suc (ticks w)\<rparr>)"

definition append_file :: "string \<Rightarrow> log_write list \<Rightarrow> world \<Rightarrow> world" where
  "append_file f ws w = w\<lparr>files := (files w)(f := files w f @ ws)\<rparr>"

section \<open>Lists and JSON as Python has them\<close>

text \<open>\<^verbatim>\<open>xs[0:n]\<close> and \<^verbatim>\<open>xs[n:]\<close>: a negative bound counts from the end.\<close>

definition slice_to :: "'a list \<Rightarrow> int \<Rightarrow> 'a list" where
  "slice_to xs n =
     take (nat (if n < 0 then max 0 (int (length xs) + n) else n)) xs"

definition slice_from :: "'a list \<Rightarrow> int \<Rightarrow> 'a list" where
  "slice_from xs n =
     drop (nat (if n < 0 then max 0 (int (length xs) + n) else n)) xs"

text \<open>Which values \<^verbatim>\<open>json.dumps\<close> accepts.\<close>

fun json_ok :: "pyval \<Rightarrow> bool" where
  "json_ok (PyDatetime t) = False"
| "json_ok (PyClient r) = False"
| "json_ok v = True"

definition dict_ok :: "pydict \<Rightarrow> bool" where
  "dict_ok d = list_all (\<lambda>(k, v). json_ok v) d"

definition event_dict_ok :: "event_dict \<Rightarrow> bool" where
  "event_dict_ok d \<longleftrightarrow>
     json_ok (ed_external_campaign_id d) \<and> json_ok (ed_name d) \<and> json_ok (ed_time d)
     \<and> (case ed_properties d of None \<Rightarrow> True | Some props \<Rightarrow> dict_ok props)"

definition dumps_ok :: "request_body \<Rightarrow> bool" where
  "dumps_ok b \<longleftrightarrow>
     (case attributes b of None \<Rightarrow> True | Some ds \<Rightarrow> list_all dict_ok ds)
     \<and> (case events b of None \<Rightarrow> True | Some ds \<Rightarrow> list_all event_dict_ok ds)"

text \<open>The literal lines of the log file.\<close>

definition request_banner :: string where
  "request_banner =
     [CHR 0x22] @ ''--'' @ '' Request '' @ replicate 49 (CHR ''-'') @ [CHR 0x22, CHR 0x0A]"

definition stamp_line :: "datetime \<Rightarrow> string" where
  "stamp_line t =
     [CHR 0x22] @ ''--'' @ '' '' @ isoformat t @ '' '' @ replicate 30 (CHR ''-'')
     @ [CHR 0x22, CHR 0x0A, CHR 0x0A]"

definition response_banner :: string where
  "response_banner =
     [CHR 0x22] @ ''--'' @ '' Response '' @ replicate 48 (CHR ''-'')
     @ [CHR 0x22, CHR 0x0A, CHR 0x0A]"

definition blank_lines :: string where
  "blank_lines = [CHR 0x0A, CHR 0x0A]"

section \<open>BrazeClient.flush\<close>

text \<open>
  The first half of the loop body: the request body and the two batch sizes. A list is
  attached only when its queue is flushed and not empty; its batch size stays 0 otherwise.
\<close>

definition user_batch_size :: "bool \<Rightarrow> client \<Rightarrow> int" where
  "user_batch_size flush_users c =
     (if flush_users \<and> user_queue c \<noteq> []
      then min (int (length (user_queue c))) (batch_size (config c))
      else 0)"

definition event_batch_size :: "bool \<Rightarrow> client \<Rightarrow> int" where
  "event_batch_size flush_events c =
     (if flush_events \<and> event_queue c \<noteq> []
      then min (int (length (event_queue c))) (batch_size (config c))
      else 0)"

definition build_request :: "bool \<Rightarrow> bool \<Rightarrow> client \<Rightarrow> request_body" where
  "build_request flush_users flush_events c =
     \<lparr>rb_api_key = api_key (config c),
      attributes =
        (if flush_users \<and> user_queue c \<noteq> []
         then Some (map user_as_dict
                      (slice_to (user_queue c) (user_batch_size flush_users c)))
         else None),
      events =
        (if flush_events \<and> event_queue c \<noteq> []
         then Some (map event_as_dict
                      (slice_to (event_queue c) (event_batch_size flush_events c)))
         else None)\<rparr>"

definition track_url :: "client \<Rightarrow> string" where
  "track_url c = endpoint (config c) @ ''/users/track''"

text \<open>
  The block \<^verbatim>\<open>if self.log is not None\<close> before the request is recorded: two header
  lines (the second reads the clock), then the dumped body, which raises when the body
  is not JSON.
\<close>

definition log_request ::
  "env \<Rightarrow> request_body \<Rightarrow> client \<times> world \<Rightarrow> (error \<times> client \<times> world) + client \<times> world" where
  "log_request env body s =
     (let (c, w) = s in
      case log c of
        None \<Rightarrow> Inr (c, w)
      | Some f \<Rightarrow>
          (let w1 = append_file f [LogText request_banner] w;
               (now, w2) = utcnow env w1;
               w3 = append_file f [LogText (stamp_line now)] w2
           in if \<not> dumps_ok body then Inl (JSONEncodeError, c, w3)
              else Inr (c, append_file f [LogRequest body, LogText blank_lines] w3)))"

text \<open>
  \<^verbatim>\<open>resp.get(key)\<close> on a parsed response: only a JSON object (a \<^verbatim>\<open>dict\<close>) has the
  method, which answers \<^verbatim>\<open>None\<close> for a key that is not there.
\<close>

definition json_get :: "json \<Rightarrow> string \<Rightarrow> error + json" where
  "json_get resp key =
     (case resp of
        JObj members \<Rightarrow> Inr (case map_of members key of None \<Rightarrow> JNull | Some v \<Rightarrow> v)
      | _ \<Rightarrow> Inl (AttributeError ''get''))"

text \<open>
  The block \<^verbatim>\<open>if self.config.send\<close>: the post, the parsed response, the outcome stored
  in the entry of this flush, the response written to the log, and the raise when
  \<^verbatim>\<open>resp.get('error')\<close> is not \<^verbatim>\<open>None\<close>.
\<close>

definition dispatch ::
  "env \<Rightarrow> datetime \<Rightarrow> request_body \<Rightarrow> client \<times> world \<Rightarrow> (error \<times> client \<times> world) + client \<times> world" where
  "dispatch env flush_time body s =
     (let (c, w) = s in
      if \<not> dumps_ok body then Inl (JSONEncodeError, c, w)
      else
        (let w1 = w\<lparr>posts := posts w @ [(track_url c, body)]\<rparr> in
         case server env (posts w1) of
           Inl e \<Rightarrow> Inl (e, c, w1)
         | Inr r \<Rightarrow>
             (case content r of
                None \<Rightarrow> Inl (JSONDecodeError, c, w1)
              | Some resp \<Rightarrow>
                  (let c1 = c\<lparr>requests :=
                              AList.map_entry flush_time
                                (\<lambda>entry. entry\<lparr>re_ok := Some (ok r),
                                                re_status := Some (status_code r),
                                                re_response := Some resp\<rparr>)
                                (requests c)\<rparr>;
                       w2 = (case log c of
                               None \<Rightarrow> w1
                             | Some f \<Rightarrow>
                                 append_file f [LogText response_banner, LogResponse resp,
                                                LogText blank_lines] w1)
                   in case json_get resp ''error'' of
                        Inl e \<Rightarrow> Inl (e, c1, w2)
                      | Inr err \<Rightarrow>
                          if err \<noteq> JNull then Inl (RequestException err, c1, w2)
                          else Inr (c1, w2)))))"

text \<open>The end of the loop body: the two slice removals and the pause.\<close>

definition prune :: "int \<Rightarrow> int \<Rightarrow> client \<times> world \<Rightarrow> client \<times> world" where
  "prune ubs ebs s =
     (let (c, w) = s;
          c1 = (if ubs > 0 then c\<lparr>user_queue := slice_from (user_queue c) ubs\<rparr> else c);
          c2 = (if ebs > 0 then c1\<lparr>event_queue := slice_from (event_queue c1) ebs\<rparr> else c1);
          w1 = (if pause (config c2) \<noteq> 0 then w\<lparr>slept := slept w @ [pause (config c2)]\<rparr>
                else w)
      in (c2, w1))"

text \<open>One pass through the body of the \<^verbatim>\<open>while\<close> loop.\<close>

definition flush_body ::
  "env \<Rightarrow> bool \<Rightarrow> bool \<Rightarrow> datetime \<Rightarrow> client \<times> world \<Rightarrow> (error \<times> client \<times> world) + client \<times> world" where
  "flush_body env flush_users flush_events flush_time s =
     (let body = build_request flush_users flush_events (fst s);
          ubs = user_batch_size flush_users (fst s);
          ebs = event_batch_size flush_events (fst s)
      in case log_request env body s of
           Inl x \<Rightarrow> Inl x
         | Inr (c, w) \<Rightarrow>
             (let c1 = c\<lparr>requests :=
                         AList.update flush_time
                           \<lparr>request = body, url = track_url c, timestamp = flush_time,
                            re_ok = None, re_status = None, re_response = None\<rparr>
                           (requests c)\<rparr>
              in case (if send (config c1) then dispatch env flush_time body (c1, w)
                       else Inr (c1, w)) of
                   Inl x \<Rightarrow> Inl x
                 | Inr s2 \<Rightarrow> Inr (prune ubs ebs s2)))"

definition loop_cond :: "bool \<Rightarrow> bool \<Rightarrow> client \<Rightarrow> bool" where
  "loop_cond flush_users flush_events c \<longleftrightarrow>
     (flush_users \<and> user_queue c \<noteq> []) \<or> (flush_events \<and> event_queue c \<noteq> [])"

text \<open>
  The \<^verbatim>\<open>while\<close> loop, allowed at most \<open>fuel\<close> passes. It answers \<open>Running\<close> when
  the passes are used up and the condition still holds.
\<close>

fun flush_loop ::
  "env \<Rightarrow> bool \<Rightarrow> bool \<Rightarrow> datetime \<Rightarrow> nat \<Rightarrow> client \<times> world \<Rightarrow> (client \<times> world) outcome" where
  "flush_loop env flush_users flush_events flush_time 0 s =
     (if loop_cond flush_users flush_events (fst s) then Running s else Returned RetNone s)"
| "flush_loop env flush_users flush_events flush_time (Suc fuel) s =
     (if loop_cond flush_users flush_events (fst s)
      then (case flush_body env flush_users flush_events flush_time s of
              Inl (e, s1) \<Rightarrow> Raised e s1
            | Inr s1 \<Rightarrow> flush_loop env flush_users flush_events flush_time fuel s1)
      else Returned RetNone s)"

text \<open>\<^verbatim>\<open>BrazeClient.flush(flush_users=True, flush_events=True)\<close>\<close>

definition flush ::
  "env \<Rightarrow> bool \<Rightarrow> bool \<Rightarrow> nat \<Rightarrow> client \<times> world \<Rightarrow> (client \<times> world) outcome" where
  "flush env flush_users flush_events fuel s =
     (let (c, w) = s;
          (flush_time, w1) = utcnow env w
      in flush_loop env flush_users flush_events flush_time fuel (c, w1))"

section \<open>BrazeClient.enqueue\<close>

text \<open>What \<^verbatim>\<open>isinstance\<close> tells apart: a user, an event, anything else.\<close>

datatype pyobj =
    ObjUser user
  | ObjEvent event
  | ObjOther pyval

definition enqueue ::
  "env \<Rightarrow> nat \<Rightarrow> pyobj \<Rightarrow> client \<times> world \<Rightarrow> (client \<times> world) outcome" where
  "enqueue env fuel obj s =
     (let (c, w) = s in
      case (case obj of
              ObjUser u \<Rightarrow> Inr (c\<lparr>user_queue := user_queue c @ [u]\<rparr>)
            | ObjEvent e \<Rightarrow> Inr (c\<lparr>event_queue := event_queue c @ [e]\<rparr>)
            | ObjOther v \<Rightarrow>
                Inl (ValueError ''Object passed is neither a BrazeUser nor a BrazeEvent'')) of
        Inl err \<Rightarrow> Raised err s
      | Inr c1 \<Rightarrow>
          if auto_flush (config c1)
             \<and> (int (length (user_queue c1)) \<ge> batch_size (config c1)
                \<or> int (length (event_queue c1)) \<ge> batch_size (config c1))
          then flush env True True fuel (c1, w)
          else Returned RetNone (c1, w))"

section \<open>The records' own enqueue\<close>

text \<open>
  A record refers to its client by address; \<open>heap\<close> is the store of clients. A method of
  the client at address \<open>r\<close> runs on that client and leaves the others alone.
\<close>

type_synonym heap = "nat \<Rightarrow> client"

definition on_client ::
  "nat \<Rightarrow> (client \<times> world \<Rightarrow> (client \<times> world) outcome) \<Rightarrow> heap \<times> world \<Rightarrow> (heap \<times> world) outcome" where
  "on_client r f s =
     map_outcome (\<lambda>(c, w). ((fst s)(r := c), w)) (f (fst s r, snd s))"

text \<open>
  \<^verbatim>\<open>braze.enqueue(obj)\<close> on whatever \<^verbatim>\<open>braze\<close> is: only a client has the method.
\<close>

definition call_enqueue ::
  "env \<Rightarrow> nat \<Rightarrow> pyval \<Rightarrow> pyobj \<Rightarrow> heap \<times> world \<Rightarrow> (heap \<times> world) outcome" where
  "call_enqueue env fuel target obj s =
     (case target of
        PyClient r \<Rightarrow> on_client r (enqueue env fuel obj) s
      | _ \<Rightarrow> Raised (AttributeError ''enqueue'') s)"

text \<open>
  \<^verbatim>\<open>BrazeUser.enqueue(braze=None)\<close>. With no client at hand the source executes
  \<^verbatim>\<open>return ValueError(...)\<close>: the exception object is the value of the call.
\<close>

definition user_enqueue ::
  "env \<Rightarrow> nat \<Rightarrow> user \<Rightarrow> pyval \<Rightarrow> heap \<times> world \<Rightarrow> (heap \<times> world) outcome" where
  "user_enqueue env fuel u brz s =
     (if brz = PyNone \<and> braze u = PyNone
      then Returned
             (RetException (ValueError ''Braze API handler neither set nor passed as parameter'')) s
      else if brz \<noteq> PyNone
      then (case call_enqueue env fuel brz (ObjUser u) s of
              Returned r s1 \<Rightarrow> Returned RetNone s1 | other \<Rightarrow> other)
      else (case call_enqueue env fuel (braze u) (ObjUser u) s of
              Returned r s1 \<Rightarrow> Returned RetNone s1 | other \<Rightarrow> other))"

text \<open>\<^verbatim>\<open>BrazeEvent.enqueue(braze=None)\<close>, written the same way.\<close>

definition event_enqueue ::
  "env \<Rightarrow> nat \<Rightarrow> event \<Rightarrow> pyval \<Rightarrow> heap \<times> world \<Rightarrow> (heap \<times> world) outcome" where
  "event_enqueue env fuel e brz s =
     (if brz = PyNone \<and> ev_braze e = PyNone
      then Returned
             (RetException (ValueError ''Braze handler neither set nor passed as parameter'')) s
      else if brz \<noteq> PyNone
      then (case call_enqueue env fuel brz (ObjEvent e) s of
              Returned r s1 \<Rightarrow> Returned RetNone s1 | other \<Rightarrow> other)
      else (case call_enqueue env fuel (ev_braze e) (ObjEvent e) s of
              Returned r s1 \<Rightarrow> Returned RetNone s1 | other \<Rightarrow> other))"

section \<open>Calls with keyword arguments, and the two factory helpers\<close>

text \<open>
  How Python binds the arguments of a call to the parameters of a function
  \<^verbatim>\<open>def f(p1, ..., pn, **kwargs)\<close>, or \<^verbatim>\<open>def f(p1, ..., pn, *args, **kwargs)\<close> when
  \<open>varargs\<close> holds: positional arguments fill the parameters from the left (a surplus
  goes to \<^verbatim>\<open>*args\<close> or is a \<^verbatim>\<open>TypeError\<close>), a keyword naming a parameter that is
  already filled is a \<^verbatim>\<open>TypeError\<close>, a keyword naming another parameter fills it, and
  the remaining keywords are \<^verbatim>\<open>**kwargs\<close>. The result is the filled parameters, the
  surplus positional arguments and the remaining keywords.
\<close>

definition bind_call ::
  "string list \<Rightarrow> bool \<Rightarrow> pyval list \<Rightarrow> pydict \<Rightarrow> error + pydict \<times> pyval list \<times> pydict" where
  "bind_call params varargs args kws =
     (if \<not> varargs \<and> length params < length args
      then Inl (TypeError ''too many positional arguments'')
      else
        (let bound = zip params args in
         if list_ex (\<lambda>(k, v). k \<in> set (map fst bound)) kws
         then Inl (TypeError ''got multiple values for argument'')
         else Inr (bound @ filter (\<lambda>(k, v). k \<in> set params) kws,
                   drop (length params) args,
                   filter (\<lambda>(k, v). k \<notin> set params) kws)))"

text \<open>
  A method has the implicit first parameter \<^verbatim>\<open>self\<close>, filled by the object the method
  is called on (for \<^verbatim>\<open>__init__\<close>, the object being built). A keyword \<^verbatim>\<open>self\<close> is a
  second value for it, a \<^verbatim>\<open>TypeError\<close>; the other arguments are bound as above.
\<close>

definition bind_method ::
  "string list \<Rightarrow> bool \<Rightarrow> pyval list \<Rightarrow> pydict \<Rightarrow> error + pydict \<times> pyval list \<times> pydict" where
  "bind_method params varargs args kws =
     (if ''self'' \<in> set (map fst kws)
      then Inl (TypeError ''got multiple values for argument self'')
      else bind_call params varargs args kws)"

text \<open>A parameter without a default must be filled; one with a default need not.\<close>

definition required :: "string \<Rightarrow> pydict \<Rightarrow> error + pyval" where
  "required p bound =
     (case map_of bound p of
        None \<Rightarrow> Inl (TypeError (''missing required argument: '' @ p))
      | Some v \<Rightarrow> Inr v)"

definition optional :: "string \<Rightarrow> pyval \<Rightarrow> pydict \<Rightarrow> pyval" where
  "optional p dflt bound = (case map_of bound p of None \<Rightarrow> dflt | Some v \<Rightarrow> v)"

text \<open>
  The keywords of a call \<^verbatim>\<open>f(k1=v1, ..., **kwargs)\<close>: a key of \<^verbatim>\<open>kwargs\<close> that
  repeats a written keyword is a \<^verbatim>\<open>TypeError\<close> at the call.
\<close>

definition call_keywords :: "pydict \<Rightarrow> pydict \<Rightarrow> error + pydict" where
  "call_keywords explicit kwargs =
     (if list_ex (\<lambda>(k, v). k \<in> set (map fst explicit)) kwargs
      then Inl (TypeError ''got multiple values for keyword argument'')
      else Inr (explicit @ kwargs))"

text \<open>
  The body of \<^verbatim>\<open>BrazeEvent.__init__\<close>, once its parameters are bound: the timestamp is
  the clock's when none was given.
\<close>

definition BrazeEvent_init ::
  "env \<Rightarrow> pyval \<Rightarrow> pyval \<Rightarrow> pyval \<Rightarrow> pyval \<Rightarrow> pydict \<Rightarrow> world \<Rightarrow> event \<times> world" where
  "BrazeEvent_init env ext nm ts brz kwargs w =
     (let (ts1, w1) = (if ts = PyNone
                       then (let (now, w1) = utcnow env w in (PyDatetime now, w1))
                       else (ts, w))
      in (\<lparr>ev_external_id = ext, ev_name = nm, ev_timestamp = ts1,
           ev_properties = dict_update [] kwargs, ev_braze = brz\<rparr>, w1))"

text \<open>
  A call \<^verbatim>\<open>BrazeEvent(...)\<close>: the binding against
  \<^verbatim>\<open>__init__(self, external_id, name, timestamp=None, braze=None, **kwargs)\<close>, then the body.
\<close>

definition BrazeEvent_call ::
  "env \<Rightarrow> pyval list \<Rightarrow> pydict \<Rightarrow> world \<Rightarrow> (error + event) \<times> world" where
  "BrazeEvent_call env args kws w =
     (case bind_method [''external_id'', ''name'', ''timestamp'', ''braze''] False args kws of
        Inl e \<Rightarrow> (Inl e, w)
      | Inr (bound, rest, kwargs) \<Rightarrow>
          (case required ''external_id'' bound of
             Inl e \<Rightarrow> (Inl e, w)
           | Inr ext \<Rightarrow>
               (case required ''name'' bound of
                  Inl e \<Rightarrow> (Inl e, w)
                | Inr nm \<Rightarrow>
                    (let (ev, w1) = BrazeEvent_init env ext nm
                                      (optional ''timestamp'' PyNone bound)
                                      (optional ''braze'' PyNone bound) kwargs w
                     in (Inr ev, w1)))))"

text \<open>
  A call \<^verbatim>\<open>BrazeUser(...)\<close>: the binding against
  \<^verbatim>\<open>__init__(self, external_id=None, update_existing_only=False, braze=None, **kwargs)\<close>.
\<close>

definition BrazeUser_call :: "pyval list \<Rightarrow> pydict \<Rightarrow> error + user" where
  "BrazeUser_call args kws =
     (case bind_method [''external_id'', ''update_existing_only'', ''braze''] False args kws of
        Inl e \<Rightarrow> Inl e
      | Inr (bound, rest, kwargs) \<Rightarrow>
          Inr (BrazeUser_init (optional ''external_id'' PyNone bound)
                 (optional ''update_existing_only'' (PyBool False) bound)
                 (optional ''braze'' PyNone bound) kwargs))"

text \<open>
  \<^verbatim>\<open>BrazeClient.user(self, external_id, *args, **kwargs)\<close>, whose body is
  \<^verbatim>\<open>return BrazeUser(external_campaign_id=external_id, *args, braze=self, **kwargs)\<close>.
  \<open>self\<close> is the address of the client.
\<close>

definition client_user ::
  "nat \<Rightarrow> pyval list \<Rightarrow> pydict \<Rightarrow> client \<times> world \<Rightarrow> (client \<times> world) outcome" where
  "client_user self args kws s =
     (case bind_method [''external_id''] True args kws of
        Inl e \<Rightarrow> Raised e s
      | Inr (bound, rest, kwargs) \<Rightarrow>
          (case required ''external_id'' bound of
             Inl e \<Rightarrow> Raised e s
           | Inr ext \<Rightarrow>
               (case call_keywords [(''external_campaign_id'', ext), (''braze'', PyClient self)]
                       kwargs of
                  Inl e \<Rightarrow> Raised e s
                | Inr kws1 \<Rightarrow>
                    (case BrazeUser_call rest kws1 of
                       Inl e \<Rightarrow> Raised e s
                     | Inr u \<Rightarrow> Returned (RetUser u) s))))"

text \<open>
  \<^verbatim>\<open>BrazeClient.event(self, external_id, name, timestamp=None, *args, **kwargs)\<close>, whose
  body is
  \<^verbatim>\<open>return BrazeEvent(external_campaign_id=external_id, name=name, timestamp=timestamp, braze=self, **kwargs)\<close>.
\<close>

definition client_event ::
  "env \<Rightarrow> nat \<Rightarrow> pyval list \<Rightarrow> pydict \<Rightarrow> client \<times> world \<Rightarrow> (client \<times> world) outcome" where
  "client_event env self args kws s =
     (case bind_method [''external_id'', ''name'', ''timestamp''] True args kws of
        Inl e \<Rightarrow> Raised e s
      | Inr (bound, rest, kwargs) \<Rightarrow>
          (case required ''external_id'' bound of
             Inl e \<Rightarrow> Raised e s
           | Inr ext \<Rightarrow>
               (case required ''name'' bound of
                  Inl e \<Rightarrow> Raised e s
                | Inr nm \<Rightarrow>
                    (case call_keywords [(''external_campaign_id'', ext), (''name'', nm),
                                    (''timestamp'', optional ''timestamp'' PyNone bound),
                                    (''braze'', PyClient self)] kwargs of
                       Inl e \<Rightarrow> Raised e s
                     | Inr kws1 \<Rightarrow>
                         (case BrazeEvent_call env [] kws1 (snd s) of
                            (Inl e, w) \<Rightarrow> Raised e (fst s, w)
                          | (Inr ev, w) \<Rightarrow> Returned (RetEvent ev) (fst s, w))))))"

section \<open>What is observed of a run\<close>

text \<open>
  The \<^verbatim>\<open>error\<close> field of the response to the last of the given posts: the value
  \<^verbatim>\<open>resp.get('error')\<close> when the response is a JSON object and the value is not
  \<^verbatim>\<open>None\<close>.
\<close>

definition error_field :: "env \<Rightarrow> (string \<times> request_body) list \<Rightarrow> json option" where
  "error_field env ps =
     (case server env ps of
        Inl e \<Rightarrow> None
      | Inr r \<Rightarrow>
          (case content r of
             None \<Rightarrow> None
           | Some resp \<Rightarrow>
               (case json_get resp ''error'' of
                  Inl e \<Rightarrow> None
                | Inr err \<Rightarrow> if err \<noteq> JNull then Some err else None)))"

text \<open>The request bodies written to a log file, in the order written.\<close>

fun logged_requests :: "log_write list \<Rightarrow> request_body list" where
  "logged_requests [] = []"
| "logged_requests (LogRequest b # xs) = b # logged_requests xs"
| "logged_requests (x # xs) = logged_requests xs"

text \<open>How many records the loop of \<^verbatim>\<open>flush\<close> still has to send.\<close>

definition pending :: "bool \<Rightarrow> bool \<Rightarrow> client \<Rightarrow> nat" where
  "pending flush_users flush_events c =
     (if flush_users then length (user_queue c) else 0)
     + (if flush_events then length (event_queue c) else 0)"

text \<open>The state in which one pass of the loop ends, raised or not.\<close>

definition pass_state :: "(error \<times> 's) + 's \<Rightarrow> 's" where
  "pass_state r = (case r of Inl (e, s) \<Rightarrow> s | Inr s \<Rightarrow> s)"

text \<open>The request body of a pass that takes the users \<open>us\<close> and no events.\<close>

definition users_body :: "client \<Rightarrow> user list \<Rightarrow> request_body" where
  "users_body c us =
     \<lparr>rb_api_key = api_key (config c), attributes = Some (map user_as_dict us),
      events = None\<rparr>"

section \<open>Example inputs\<close>

text \<open>Concrete records on which the properties below are also evaluated.\<close>

definition t0 :: datetime where
  "t0 = \<lparr>year = 2020, month = 1, day = 2, hour = 3, minute = 4, second = 5,
         microsecond = 0, utcoffset = None\<rparr>"

definition u0 :: user where
  "u0 = \<lparr>external_id = PyStr ''u-1'', update_existing_only = PyBool False,
         traits = [(''since'', PyDatetime t0), (''nick'', PyNone), (''age'', PyInt 33),
                   (''external_campaign_id'', PyStr ''c-9'')],
         braze = PyNone\<rparr>"

definition e0 :: event where
  "e0 = \<lparr>ev_external_id = PyStr ''u-1'', ev_name = PyStr ''login'',
         ev_timestamp = PyDatetime t0,
         ev_properties = [(''at'', PyDatetime t0), (''via'', PyNone), (''n'', PyInt 2)],
         ev_braze = PyNone\<rparr>"

definition cfg0 :: config where
  "cfg0 = \<lparr>endpoint = ''https://rest.fra-01.braze.eu'', api_key = ''APIKEY'',
           batch_size = 75, auto_flush = False, send = False, pause = 0,
           cfg_log = Some ''braze.log''\<rparr>"

definition c0 :: client where
  "c0 = \<lparr>config = cfg0, log = Some ''braze.log'', requests = [],
         event_queue = [], user_queue = []\<rparr>"

definition w0 :: world where
  "w0 = \<lparr>ticks = 0, posts = [], files = (\<lambda>f. []), slept = []\<rparr>"

definition env0 :: env where
  "env0 = \<lparr>clock = (\<lambda>n. t0),
           server = (\<lambda>ps. Inr \<lparr>ok = True, status_code = 201, content = Some (JObj [])\<rparr>)\<rparr>"

definition h0 :: heap where
  "h0 = (\<lambda>r. c0)"

definition u1 :: user where
  "u1 = \<lparr>external_id = PyStr ''u-2'', update_existing_only = PyBool True,
         traits = [(''plan'', PyStr ''pro'')], braze = PyClient 0\<rparr>"

definition c_auto :: client where
  "c_auto = c0\<lparr>config := cfg0\<lparr>batch_size := 2, auto_flush := True\<rparr>, user_queue := [u0]\<rparr>"

definition c_dry :: client where
  "c_dry = c0\<lparr>user_queue := [u0, u1], event_queue := [e0]\<rparr>"

definition c_two :: client where
  "c_two = c0\<lparr>config := cfg0\<lparr>batch_size := 1\<rparr>, user_queue := [u0, u1]\<rparr>"

text \<open>A server that accepts the first request and answers every later one with an error.\<close>

definition env_err :: env where
  "env_err = \<lparr>clock = (\<lambda>n. t0),
              server = (\<lambda>ps. if length ps = 1
                             then Inr \<lparr>ok = True, status_code = 201,
                                      content = Some (JObj [(''message'', JStr ''success'')])\<rparr>
                             else Inr \<lparr>ok = False, status_code = 400,
                                      content = Some (JObj [(''error'', JStr ''quota'')])\<rparr>)\<rparr>"

definition c_send :: client where
  "c_send = c0\<lparr>config := cfg0\<lparr>batch_size := 1, send := True\<rparr>, user_queue := [u0, u1]\<rparr>"

definition run_err :: "(client \<times> world) outcome" where
  "run_err = flush env_err True True 5 (c_send, w0)"

definition c_200 :: client where
  "c_200 = c0\<lparr>user_queue := replicate 200 u1, event_queue := [e0]\<rparr>"

text \<open>A server that answers every request with an error.\<close>

definition env_fail :: env where
  "env_fail = \<lparr>clock = (\<lambda>n. t0),
               server = (\<lambda>ps. Inr \<lparr>ok = False, status_code = 400,
                                   content = Some (JObj [(''error'', JStr ''quota'')])\<rparr>)\<rparr>"

definition c_auto_send :: client where
  "c_auto_send = c_auto\<lparr>config := (config c_auto)\<lparr>send := True\<rparr>\<rparr>"

text \<open>A server whose answers differ in their status code.\<close>

definition env_two :: env where
  "env_two = \<lparr>clock = (\<lambda>n. t0),
              server = (\<lambda>ps. Inr \<lparr>ok = True, status_code = 200 + int (length ps),
                                  content = Some (JObj [])\<rparr>)\<rparr>"

definition c_two_send :: client where
  "c_two_send = c_two\<lparr>config := (config c_two)\<lparr>send := True\<rparr>\<rparr>"

section \<open>Serialisation of records\<close>

text \<open>
  Storing the pairs of a \<^verbatim>\<open>dict\<close> one by one into another: afterwards a key of the
  first has its (mapped) value, and any other key keeps what it had.
\<close>

lemma map_of_fold_update:
  "distinct (map fst xs) \<Longrightarrow>
   map_of (fold (\<lambda>(k, v) acc. AList.update k (f v) acc) xs d) k
     = (case map_of xs k of None \<Rightarrow> map_of d k | Some v \<Rightarrow> Some (f v))"
proof (induction xs arbitrary: d)
  case Nil
  then show ?case by simp
next
  case (Cons x xs)
  obtain k0 v0 where x: "x = (k0, v0)" by (cases x)
  from Cons.prems x have notin: "k0 \<notin> fst ` set xs" and dist: "distinct (map fst xs)"
    by auto
  from notin have none: "map_of xs k0 = None"
    by (simp add: map_of_eq_None_iff)
  show ?case
    using Cons.IH [OF dist, of "AList.update k0 (f v0) d"] none
    by (auto simp: x update_conv' split: option.splits)
qed

lemma distinct_fold_update:
  "distinct (map fst d) \<Longrightarrow>
   distinct (map fst (fold (\<lambda>(k, v) acc. AList.update k (f v) acc) xs d))"
  by (induction xs arbitrary: d) (auto simp: distinct_update)

lemma user_as_dict_lookup:
  "distinct (map fst (traits u)) \<Longrightarrow> map_of (traits u) k = Some v \<Longrightarrow>
   map_of (user_as_dict u) k = Some (render v)"
  by (simp add: user_as_dict_def map_of_fold_update)

lemma event_as_dict_lookup:
  assumes "distinct (map fst (ev_properties e))" and "map_of (ev_properties e) k = Some v"
  shows "\<exists>props. ed_properties (event_as_dict e) = Some props \<and> map_of props k = Some (render v)"
proof -
  from assms(2) have "ev_properties e \<noteq> []" by auto
  then show ?thesis
    using assms by (simp add: event_as_dict_def map_of_fold_update)
qed

lemma iso_t0: "isoformat t0 = ''2020-01-02T03:04:05''"
  by (simp add: t0_def isoformat_def d2_def d4_def d6_def digit_def iso_offset_def)

text \<open>
  Claim C8. Serialising a record maps each trait of a user and each property of an event
  as follows: a timestamp becomes the string of its ISO form, \<^verbatim>\<open>None\<close> is stored as
  \<^verbatim>\<open>None\<close> under its key (the key is not dropped), and every other value is stored
  unchanged. The timestamp of an event is rendered the same way. The keys of a
  \<^verbatim>\<open>dict\<close> are distinct.
\<close>

theorem as_dict_renders_values:
  assumes "distinct (map fst (traits u))" and "distinct (map fst (ev_properties e))"
  shows "(\<forall>k t. map_of (traits u) k = Some (PyDatetime t)
              \<longrightarrow> map_of (user_as_dict u) k = Some (PyStr (isoformat t)))
       \<and> (\<forall>k. map_of (traits u) k = Some PyNone \<longrightarrow> map_of (user_as_dict u) k = Some PyNone)
       \<and> (\<forall>k v. map_of (traits u) k = Some v \<and> (\<forall>t. v \<noteq> PyDatetime t)
              \<longrightarrow> map_of (user_as_dict u) k = Some v)
       \<and> (\<forall>k t. map_of (ev_properties e) k = Some (PyDatetime t)
              \<longrightarrow> (\<exists>props. ed_properties (event_as_dict e) = Some props
                        \<and> map_of props k = Some (PyStr (isoformat t))))
       \<and> (\<forall>k. map_of (ev_properties e) k = Some PyNone
              \<longrightarrow> (\<exists>props. ed_properties (event_as_dict e) = Some props
                        \<and> map_of props k = Some PyNone))
       \<and> (\<forall>k v. map_of (ev_properties e) k = Some v \<and> (\<forall>t. v \<noteq> PyDatetime t)
              \<longrightarrow> (\<exists>props. ed_properties (event_as_dict e) = Some props
                        \<and> map_of props k = Some v))
       \<and> (\<forall>t. ev_timestamp e = PyDatetime t
              \<longrightarrow> ed_time (event_as_dict e) = PyStr (isoformat t))"
proof (intro conjI allI impI)
  fix k t assume "map_of (traits u) k = Some (PyDatetime t)"
  from user_as_dict_lookup [OF assms(1) this]
  show "map_of (user_as_dict u) k = Some (PyStr (isoformat t))" by simp
next
  fix k assume "map_of (traits u) k = Some PyNone"
  from user_as_dict_lookup [OF assms(1) this]
  show "map_of (user_as_dict u) k = Some PyNone" by simp
next
  fix k v assume h: "map_of (traits u) k = Some v \<and> (\<forall>t. v \<noteq> PyDatetime t)"
  then have "render v = v" by (cases v) auto
  with user_as_dict_lookup [OF assms(1), of k v] h
  show "map_of (user_as_dict u) k = Some v" by simp
next
  fix k t assume "map_of (ev_properties e) k = Some (PyDatetime t)"
  from event_as_dict_lookup [OF assms(2) this]
  show "\<exists>props. ed_properties (event_as_dict e) = Some props
                 \<and> map_of props k = Some (PyStr (isoformat t))" by simp
next
  fix k assume "map_of (ev_properties e) k = Some PyNone"
  from event_as_dict_lookup [OF assms(2) this]
  show "\<exists>props. ed_properties (event_as_dict e) = Some props \<and> map_of props k = Some PyNone"
    by simp
next
  fix k v assume h: "map_of (ev_properties e) k = Some v \<and> (\<forall>t. v \<noteq> PyDatetime t)"
  then have "render v = v" by (cases v) auto
  with event_as_dict_lookup [OF assms(2), of k v] h
  show "\<exists>props. ed_properties (event_as_dict e) = Some props \<and> map_of props k = Some v"
    by simp
next
  fix t assume "ev_timestamp e = PyDatetime t"
  then show "ed_time (event_as_dict e) = PyStr (isoformat t)"
    by (simp add: event_as_dict_def)
qed

theorem as_dict_renders_values_witness:
  "distinct (map fst (traits u0)) \<and> distinct (map fst (ev_properties e0))
   \<and> map_of (traits u0) ''since'' = Some (PyDatetime t0)
   \<and> map_of (user_as_dict u0) ''since'' = Some (PyStr ''2020-01-02T03:04:05'')
   \<and> map_of (traits u0) ''nick'' = Some PyNone
   \<and> map_of (user_as_dict u0) ''nick'' = Some PyNone
   \<and> map_of (user_as_dict u0) ''age'' = Some (PyInt 33)
   \<and> (\<exists>props. ed_properties (event_as_dict e0) = Some props
         \<and> map_of props ''at'' = Some (PyStr ''2020-01-02T03:04:05''))
   \<and> ed_time (event_as_dict e0) = PyStr ''2020-01-02T03:04:05''"
proof -
  have d1: "distinct (map fst (traits u0))" by (simp add: u0_def)
  have d2: "distinct (map fst (ev_properties e0))" by (simp add: e0_def)
  have m1: "map_of (traits u0) ''since'' = Some (PyDatetime t0)" by (simp add: u0_def)
  have m2: "map_of (traits u0) ''nick'' = Some PyNone" by (simp add: u0_def)
  have m3: "map_of (traits u0) ''age'' = Some (PyInt 33) \<and> (\<forall>t. PyInt 33 \<noteq> PyDatetime t)"
    by (simp add: u0_def)
  have m4: "map_of (ev_properties e0) ''at'' = Some (PyDatetime t0)" by (simp add: e0_def)
  have m5: "ev_timestamp e0 = PyDatetime t0" by (simp add: e0_def)
  note th = as_dict_renders_values [OF d1 d2]
  have r1: "map_of (user_as_dict u0) ''since'' = Some (PyStr (isoformat t0))"
    using th m1 by blast
  have r2: "map_of (user_as_dict u0) ''nick'' = Some PyNone"
    using th m2 by blast
  have r3: "map_of (user_as_dict u0) ''age'' = Some (PyInt 33)"
    using th m3 by blast
  have r4: "\<exists>props. ed_properties (event_as_dict e0) = Some props
              \<and> map_of props ''at'' = Some (PyStr (isoformat t0))"
    using th m4 by blast
  have r5: "ed_time (event_as_dict e0) = PyStr (isoformat t0)"
    using th m5 by blast
  show ?thesis
    using d1 d2 m1 m2 r1 r2 r3 r4 r5 by (simp add: iso_t0)
qed

text \<open>
  Claim C10. The identity keys of a serialised user are not protected: when the traits
  hold the key \<^verbatim>\<open>external_campaign_id\<close> or \<^verbatim>\<open>update_existing_only\<close>, the serialised
  mapping holds the trait's (serialised) value under that key, whatever the identity
  field was, and holds the key once: the identity keys are written first and the traits
  are stored over them.
\<close>

theorem traits_overwrite_identity:
  assumes "distinct (map fst (traits u))"
    and "k = ''external_campaign_id'' \<or> k = ''update_existing_only''"
    and "map_of (traits u) k = Some v"
  shows "map_of (user_as_dict u) k = Some (render v)
       \<and> ((\<forall>t. v \<noteq> PyDatetime t) \<longrightarrow> map_of (user_as_dict u) k = Some v)
       \<and> distinct (map fst (user_as_dict u))"
proof -
  have a: "map_of (user_as_dict u) k = Some (render v)"
    using assms(1,3) by (rule user_as_dict_lookup)
  have b: "(\<forall>t. v \<noteq> PyDatetime t) \<longrightarrow> render v = v"
    by (cases v) auto
  have c: "distinct (map fst (user_as_dict u))"
    unfolding user_as_dict_def by (rule distinct_fold_update) simp
  from a b c show ?thesis by simp
qed

theorem traits_overwrite_identity_witness:
  "distinct (map fst (traits u0))
   \<and> map_of (traits u0) ''external_campaign_id'' = Some (PyStr ''c-9'')
   \<and> external_id u0 = PyStr ''u-1''
   \<and> map_of (user_as_dict u0) ''external_campaign_id'' = Some (PyStr ''c-9'')
   \<and> distinct (map fst (user_as_dict u0))"
proof -
  have d1: "distinct (map fst (traits u0))" by (simp add: u0_def)
  have m1: "map_of (traits u0) ''external_campaign_id'' = Some (PyStr ''c-9'')"
    by (simp add: u0_def)
  have e1: "external_id u0 = PyStr ''u-1''" by (simp add: u0_def)
  from traits_overwrite_identity [OF d1 _ m1] d1 m1 e1 show ?thesis by simp
qed


section \<open>The factory helper for events\<close>

lemma bind_method_TypeError:
  "bind_method params va args kws = Inl e \<Longrightarrow> \<exists>msg. e = TypeError msg"
  by (auto simp: bind_method_def bind_call_def Let_def split: if_splits)

lemma bind_method_kwargs:
  "bind_method params va args kws = Inr (bound, rest, kwargs) \<Longrightarrow>
   kwargs = filter (\<lambda>(k, v). k \<notin> set params) kws"
  by (auto simp: bind_method_def bind_call_def Let_def split: if_splits)

lemma required_TypeError: "required p bound = Inl e \<Longrightarrow> \<exists>msg. e = TypeError msg"
  by (auto simp: required_def split: option.splits)

lemma call_keywords_TypeError: "call_keywords ex kwargs = Inl e \<Longrightarrow> \<exists>msg. e = TypeError msg"
  by (auto simp: call_keywords_def split: if_splits)

lemma call_keywords_Inr: "call_keywords ex kwargs = Inr kws1 \<Longrightarrow> kws1 = ex @ kwargs"
  by (auto simp: call_keywords_def split: if_splits)

lemma map_of_filter_absent:
  "k \<notin> fst ` set xs \<Longrightarrow> map_of (filter Q xs) k = None"
  by (induction xs) auto

lemma BrazeEvent_call_needs_external_id:
  assumes "''external_id'' \<notin> fst ` set kws"
  shows "\<exists>msg. BrazeEvent_call env [] kws w = (Inl (TypeError msg), w)"
proof (cases "bind_method [''external_id'', ''name'', ''timestamp'', ''braze''] False [] kws")
  case (Inl e)
  then show ?thesis
    using bind_method_TypeError [OF Inl] by (auto simp: BrazeEvent_call_def)
next
  case (Inr r)
  then obtain bound rest kwargs where r: "r = (bound, rest, kwargs)" by (cases r)
  from Inr r have "bound = filter (\<lambda>(k, v). k \<in> set [''external_id'', ''name'', ''timestamp'', ''braze'']) kws"
    by (auto simp: bind_method_def bind_call_def Let_def split: if_splits)
  with assms have "map_of bound ''external_id'' = None"
    by (simp add: map_of_filter_absent)
  then show ?thesis
    using Inr r by (simp add: BrazeEvent_call_def required_def)
qed

text \<open>
  Claim C9. Every call of the client's helper \<^verbatim>\<open>event\<close> fails with a \<^verbatim>\<open>TypeError\<close>
  and leaves the client, and so both queues, as they were: the helper passes the identity
  under the keyword \<^verbatim>\<open>external_campaign_id\<close>, so the constructor's required parameter
  \<^verbatim>\<open>external_id\<close> is never filled and no event is built.
\<close>

theorem client_event_always_fails:
  "\<exists>msg. client_event env self args kws s = Raised (TypeError msg) s"
proof (cases "bind_method [''external_id'', ''name'', ''timestamp''] True args kws")
  case (Inl e)
  then show ?thesis
    using bind_method_TypeError [OF Inl] by (auto simp: client_event_def)
next
  case (Inr r)
  then obtain bound rest kwargs where r: "r = (bound, rest, kwargs)" by (cases r)
  have kwargs: "kwargs = filter (\<lambda>(k, v). k \<notin> set [''external_id'', ''name'', ''timestamp'']) kws"
    using Inr unfolding r by (rule bind_method_kwargs)
  show ?thesis
  proof (cases "required ''external_id'' bound")
    case (Inl e)
    then show ?thesis
      using required_TypeError [OF Inl] Inr r by (auto simp: client_event_def)
  next
    case ext: (Inr ext)
    show ?thesis
    proof (cases "required ''name'' bound")
      case (Inl e)
      then show ?thesis
        using required_TypeError [OF Inl] Inr r ext by (auto simp: client_event_def)
    next
      case nm: (Inr nm)
      let ?ex = "[(''external_campaign_id'', ext), (''name'', nm),
                  (''timestamp'', optional ''timestamp'' PyNone bound),
                  (''braze'', PyClient self)]"
      show ?thesis
      proof (cases "call_keywords ?ex kwargs")
        case (Inl e)
        then show ?thesis
          using call_keywords_TypeError [OF Inl] Inr r ext nm by (auto simp: client_event_def)
      next
        case kw: (Inr kws1)
        have kws1: "kws1 = ?ex @ kwargs" using call_keywords_Inr [OF kw] .
        have "''external_id'' \<notin> fst ` set kws1"
          unfolding kws1 kwargs by auto
        from BrazeEvent_call_needs_external_id [OF this, of env "snd s"]
        obtain msg where "BrazeEvent_call env [] kws1 (snd s) = (Inl (TypeError msg), snd s)"
          by blast
        then show ?thesis
          using Inr r ext nm kw by (simp add: client_event_def)
      qed
    qed
  qed
qed


theorem client_event_always_fails_witness:
  "(\<exists>msg. client_event env0 1 [PyStr ''u-1'', PyStr ''login''] [(''plan'', PyStr ''pro'')] (c0, w0)
          = Raised (TypeError msg) (c0, w0))
   \<and> client_event env0 1 [PyStr ''u-1'', PyStr ''login''] [(''plan'', PyStr ''pro'')] (c0, w0)
       = Raised (TypeError ''missing required argument: external_id'') (c0, w0)"
proof -
  have "client_event env0 1 [PyStr ''u-1'', PyStr ''login''] [(''plan'', PyStr ''pro'')] (c0, w0)
       = Raised (TypeError ''missing required argument: external_id'') (c0, w0)"
    by (simp add: client_event_def bind_method_def bind_call_def required_def optional_def call_keywords_def
        BrazeEvent_call_def)
  with client_event_always_fails [of env0 1 "[PyStr ''u-1'', PyStr ''login'']"
      "[(''plan'', PyStr ''pro'')]" "(c0, w0)"]
  show ?thesis by simp
qed


section \<open>Enqueueing\<close>

text \<open>
  Claim C3, at the input where it fails. A user and an event that hold no client, enqueued
  with no client passed: the call returns normally, and its value is the
  \<^verbatim>\<open>ValueError\<close> object. Nothing is raised, so a caller that does not look at the
  returned value never learns of the error.
\<close>

theorem record_enqueue_returns_error_object:
  "user_enqueue env0 0 u0 PyNone (h0, w0)
     = Returned (RetException
         (ValueError ''Braze API handler neither set nor passed as parameter'')) (h0, w0)
   \<and> event_enqueue env0 0 e0 PyNone (h0, w0)
     = Returned (RetException
         (ValueError ''Braze handler neither set nor passed as parameter'')) (h0, w0)"
  by (simp add: user_enqueue_def event_enqueue_def u0_def e0_def)

text \<open>
  The same for every record without a client, and the other half of the claim: a client
  that is passed receives the record, before the one the record holds.
\<close>

lemma user_enqueue_without_client:
  "braze u = PyNone \<Longrightarrow>
   user_enqueue env fuel u PyNone s
     = Returned (RetException
         (ValueError ''Braze API handler neither set nor passed as parameter'')) s"
  by (simp add: user_enqueue_def)

lemma event_enqueue_without_client:
  "ev_braze e = PyNone \<Longrightarrow>
   event_enqueue env fuel e PyNone s
     = Returned (RetException
         (ValueError ''Braze handler neither set nor passed as parameter'')) s"
  by (simp add: event_enqueue_def)

lemma user_enqueue_passed_client:
  "user_enqueue env fuel u (PyClient r) s
     = (case on_client r (enqueue env fuel (ObjUser u)) s of
          Returned x s1 \<Rightarrow> Returned RetNone s1 | other \<Rightarrow> other)"
  by (simp add: user_enqueue_def call_enqueue_def)

lemma user_enqueue_held_client:
  "braze u = PyClient r \<Longrightarrow>
   user_enqueue env fuel u PyNone s
     = (case on_client r (enqueue env fuel (ObjUser u)) s of
          Returned x s1 \<Rightarrow> Returned RetNone s1 | other \<Rightarrow> other)"
  by (simp add: user_enqueue_def call_enqueue_def)

lemma event_enqueue_passed_client:
  "event_enqueue env fuel e (PyClient r) s
     = (case on_client r (enqueue env fuel (ObjEvent e)) s of
          Returned x s1 \<Rightarrow> Returned RetNone s1 | other \<Rightarrow> other)"
  by (simp add: event_enqueue_def call_enqueue_def)

lemma event_enqueue_held_client:
  "ev_braze e = PyClient r \<Longrightarrow>
   event_enqueue env fuel e PyNone s
     = (case on_client r (enqueue env fuel (ObjEvent e)) s of
          Returned x s1 \<Rightarrow> Returned RetNone s1 | other \<Rightarrow> other)"
  by (simp add: event_enqueue_def call_enqueue_def)

text \<open>
  Claim C7. \<^verbatim>\<open>enqueue\<close> with an object that is neither a user nor an event raises the
  \<^verbatim>\<open>ValueError\<close> and leaves the whole state, both queues with it, as it was. A user is
  appended to the user queue and an event to the event queue; the call then returns, or
  runs \<^verbatim>\<open>flush\<close> on the appended queues when auto-flush is on and a queue has reached
  the batch size.
\<close>

theorem enqueue_by_variant:
  "enqueue env fuel (ObjOther v) (c, w)
     = Raised (ValueError ''Object passed is neither a BrazeUser nor a BrazeEvent'') (c, w)
   \<and> enqueue env fuel (ObjUser u) (c, w)
     = (let c1 = c\<lparr>user_queue := user_queue c @ [u]\<rparr> in
        if auto_flush (config c)
           \<and> (batch_size (config c) \<le> int (length (user_queue c)) + 1
              \<or> batch_size (config c) \<le> int (length (event_queue c)))
        then flush env True True fuel (c1, w)
        else Returned RetNone (c1, w))
   \<and> enqueue env fuel (ObjEvent e) (c, w)
     = (let c1 = c\<lparr>event_queue := event_queue c @ [e]\<rparr> in
        if auto_flush (config c)
           \<and> (batch_size (config c) \<le> int (length (user_queue c))
              \<or> batch_size (config c) \<le> int (length (event_queue c)) + 1)
        then flush env True True fuel (c1, w)
        else Returned RetNone (c1, w))"
  by (auto simp: enqueue_def Let_def)

theorem enqueue_by_variant_witness:
  "enqueue env0 0 (ObjOther (PyInt 5)) (c0, w0)
     = Raised (ValueError ''Object passed is neither a BrazeUser nor a BrazeEvent'') (c0, w0)
   \<and> enqueue env0 0 (ObjUser u0) (c0, w0) = Returned RetNone (c0\<lparr>user_queue := [u0]\<rparr>, w0)
   \<and> enqueue env0 0 (ObjEvent e0) (c0, w0) = Returned RetNone (c0\<lparr>event_queue := [e0]\<rparr>, w0)"
  using enqueue_by_variant [of env0 0 "PyInt 5" c0 w0 u0 e0]
  by (simp add: c0_def cfg0_def Let_def)

section \<open>Flushing\<close>

subsection \<open>The parts of the loop body\<close>

lemma log_request_Inr:
  "log_request env body (c, w) = Inr (c', w') \<Longrightarrow>
   c' = c \<and> posts w' = posts w \<and> slept w' = slept w \<and> (log c \<noteq> None \<longrightarrow> dumps_ok body)"
  by (auto simp: log_request_def Let_def utcnow_def append_file_def split: option.splits if_splits)

lemma log_request_Inl:
  "log_request env body (c, w) = Inl (e, c', w') \<Longrightarrow>
   c' = c \<and> posts w' = posts w \<and> slept w' = slept w \<and> e = JSONEncodeError"
  by (auto simp: log_request_def Let_def utcnow_def append_file_def split: option.splits if_splits)

lemma logged_requests_append:
  "logged_requests (xs @ ys) = logged_requests xs @ logged_requests ys"
  by (induction xs rule: logged_requests.induct) auto

lemma log_request_passes:
  assumes "log c = None \<or> dumps_ok body"
  shows "\<exists>w'. log_request env body (c, w) = Inr (c, w') \<and> posts w' = posts w
           \<and> (\<forall>f. logged_requests (files w' f)
                    = logged_requests (files w f) @ (if log c = Some f then [body] else []))"
  using assms
  by (auto simp: log_request_def Let_def utcnow_def append_file_def logged_requests_append
      split: option.splits)

lemma dispatch_Inr:
  "dispatch env t body (c, w) = Inr (c', w') \<Longrightarrow>
   config c' = config c \<and> log c' = log c \<and> user_queue c' = user_queue c
   \<and> event_queue c' = event_queue c
   \<and> posts w' = posts w @ [(track_url c, body)] \<and> dumps_ok body
   \<and> error_field env (posts w') = None"
  by (auto simp: dispatch_def Let_def append_file_def error_field_def
      split: if_splits sum.splits option.splits)

lemma dispatch_Inl:
  "dispatch env t body (c, w) = Inl (e, c', w') \<Longrightarrow>
   config c' = config c \<and> log c' = log c \<and> user_queue c' = user_queue c
   \<and> event_queue c' = event_queue c
   \<and> (posts w' = posts w
       \<or> dumps_ok body \<and> posts w' = posts w @ [(track_url c, body)]
         \<and> (\<forall>err. error_field env (posts w') = Some err \<longrightarrow> e = RequestException err))"
  by (auto simp: dispatch_def Let_def append_file_def error_field_def
      split: if_splits sum.splits option.splits)

lemma dispatch_posts:
  "dumps_ok body \<Longrightarrow>
   posts (snd (case dispatch env t body (c, w) of Inl (e, s) \<Rightarrow> s | Inr s \<Rightarrow> s))
     = posts w @ [(track_url c, body)]"
  by (auto simp: dispatch_def Let_def append_file_def
      split: if_splits sum.splits option.splits)

lemma prune_fields:
  "prune ubs ebs (c, w) = (c', w') \<Longrightarrow>
   config c' = config c \<and> log c' = log c \<and> requests c' = requests c
   \<and> user_queue c' = (if 0 < ubs then slice_from (user_queue c) ubs else user_queue c)
   \<and> event_queue c' = (if 0 < ebs then slice_from (event_queue c) ebs else event_queue c)
   \<and> posts w' = posts w \<and> files w' = files w \<and> ticks w' = ticks w"
  by (auto simp: prune_def Let_def split: if_splits)

lemma build_request_cong:
  "config c' = config c \<Longrightarrow> user_queue c' = user_queue c \<Longrightarrow> event_queue c' = event_queue c \<Longrightarrow>
   build_request fu fe c' = build_request fu fe c \<and> track_url c' = track_url c
   \<and> loop_cond fu fe c' = loop_cond fu fe c"
  by (simp add: build_request_def track_url_def loop_cond_def user_batch_size_def
      event_batch_size_def)

subsection \<open>One pass\<close>

lemma flush_body_Inl:
  assumes "flush_body env fu fe t (c, w) = Inl (e, c', w')"
  shows "config c' = config c \<and> log c' = log c \<and> user_queue c' = user_queue c
         \<and> event_queue c' = event_queue c
         \<and> (posts w' = posts w
             \<or> send (config c) \<and> dumps_ok (build_request fu fe c)
               \<and> posts w' = posts w @ [(track_url c, build_request fu fe c)]
               \<and> (\<forall>err. error_field env (posts w') = Some err \<longrightarrow> e = RequestException err))"
proof (cases "log_request env (build_request fu fe c) (c, w)")
  case (Inl x)
  with assms have "x = (e, c', w')" by (simp add: flush_body_def Let_def)
  with Inl log_request_Inl show ?thesis by blast
next
  case (Inr y)
  obtain c1 w1 where y: "y = (c1, w1)" by (cases y)
  with Inr log_request_Inr have c1: "c1 = c" and p1: "posts w1 = posts w" by blast+
  from assms Inr y c1 have send: "send (config c)"
    by (auto simp: flush_body_def Let_def split: if_splits sum.splits)
  let ?c1 = "c\<lparr>requests := AList.update t
               \<lparr>request = build_request fu fe c, url = track_url c, timestamp = t,
                re_ok = None, re_status = None, re_response = None\<rparr> (requests c)\<rparr>"
  from assms Inr y c1 send
  have "dispatch env t (build_request fu fe c) (?c1, w1) = Inl (e, c', w')"
    by (auto simp: flush_body_def Let_def split: if_splits sum.splits)
  from dispatch_Inl [OF this] p1 send show ?thesis by (simp add: track_url_def)
qed

lemma flush_body_Inr:
  assumes "flush_body env fu fe t (c, w) = Inr (c', w')"
  shows "config c' = config c \<and> log c' = log c
         \<and> user_queue c' = (if 0 < user_batch_size fu c
                             then slice_from (user_queue c) (user_batch_size fu c)
                             else user_queue c)
         \<and> event_queue c' = (if 0 < event_batch_size fe c
                              then slice_from (event_queue c) (event_batch_size fe c)
                              else event_queue c)
         \<and> (if send (config c)
             then posts w' = posts w @ [(track_url c, build_request fu fe c)]
                  \<and> error_field env (posts w') = None
             else posts w' = posts w)"
proof (cases "log_request env (build_request fu fe c) (c, w)")
  case (Inl x)
  with assms show ?thesis by (simp add: flush_body_def Let_def)
next
  case (Inr y)
  obtain c1 w1 where y: "y = (c1, w1)" by (cases y)
  with Inr log_request_Inr have c1: "c1 = c" and p1: "posts w1 = posts w" by blast+
  let ?c1 = "c\<lparr>requests := AList.update t
               \<lparr>request = build_request fu fe c, url = track_url c, timestamp = t,
                re_ok = None, re_status = None, re_response = None\<rparr> (requests c)\<rparr>"
  show ?thesis
  proof (cases "send (config c)")
    case True
    with assms Inr y c1 obtain s2 where
      d: "dispatch env t (build_request fu fe c) (?c1, w1) = Inr s2"
      and p: "prune (user_batch_size fu c) (event_batch_size fe c) s2 = (c', w')"
      by (auto simp: flush_body_def Let_def split: if_splits sum.splits)
    obtain c2 w2 where s2: "s2 = (c2, w2)" by (cases s2)
    from dispatch_Inr [OF d [unfolded s2]] prune_fields [OF p [unfolded s2]] p1 True
    show ?thesis by (auto simp: track_url_def)
  next
    case False
    with assms Inr y c1
    have p: "prune (user_batch_size fu c) (event_batch_size fe c) (?c1, w1) = (c', w')"
      by (auto simp: flush_body_def Let_def split: if_splits sum.splits)
    from prune_fields [OF p] p1 False show ?thesis by simp
  qed
qed

subsection \<open>The loop\<close>

lemma flush_loop_config:
  "config (fst (outcome_state (flush_loop env fu fe t fuel (c, w)))) = config c
   \<and> log (fst (outcome_state (flush_loop env fu fe t fuel (c, w)))) = log c"
proof (induction fuel arbitrary: c w)
  case 0
  show ?case by simp
next
  case (Suc fuel)
  show ?case
  proof (cases "loop_cond fu fe c")
    case False
    then show ?thesis by simp
  next
    case True
    show ?thesis
    proof (cases "flush_body env fu fe t (c, w)")
      case (Inl x)
      obtain e c1 w1 where x: "x = (e, c1, w1)" by (cases x)
      from flush_body_Inl [OF Inl [unfolded x]] True Inl x show ?thesis by simp
    next
      case (Inr y)
      obtain c1 w1 where y: "y = (c1, w1)" by (cases y)
      from flush_body_Inr [OF Inr [unfolded y]] Suc.IH [of c1 w1] True Inr y
      show ?thesis by simp
    qed
  qed
qed

lemma flush_loop_posts_nosend:
  "\<not> send (config c) \<Longrightarrow>
   posts (snd (outcome_state (flush_loop env fu fe t fuel (c, w)))) = posts w"
proof (induction fuel arbitrary: c w)
  case 0
  show ?case by simp
next
  case (Suc fuel)
  show ?case
  proof (cases "loop_cond fu fe c")
    case False
    then show ?thesis by simp
  next
    case True
    show ?thesis
    proof (cases "flush_body env fu fe t (c, w)")
      case (Inl x)
      obtain e c1 w1 where x: "x = (e, c1, w1)" by (cases x)
      from flush_body_Inl [OF Inl [unfolded x]] Suc.prems True Inl x show ?thesis by auto
    next
      case (Inr y)
      obtain c1 w1 where y: "y = (c1, w1)" by (cases y)
      from flush_body_Inr [OF Inr [unfolded y]] Suc.prems
      have "\<not> send (config c1)" and "posts w1 = posts w" by auto
      with Suc.IH [of c1 w1] True Inr y show ?thesis by simp
    qed
  qed
qed

lemma flush_loop_Returned:
  "flush_loop env fu fe t fuel (c, w) = Returned r (c', w') \<Longrightarrow>
   r = RetNone \<and> \<not> loop_cond fu fe c'"
proof (induction fuel arbitrary: c w)
  case 0
  then show ?case by (auto split: if_splits)
next
  case (Suc fuel)
  show ?case
  proof (cases "loop_cond fu fe c")
    case False
    with Suc.prems show ?thesis by auto
  next
    case True
    show ?thesis
    proof (cases "flush_body env fu fe t (c, w)")
      case (Inl x)
      with Suc.prems True show ?thesis by (auto split: prod.splits)
    next
      case (Inr y)
      obtain c1 w1 where y: "y = (c1, w1)" by (cases y)
      from Suc.prems True Inr y
      have "flush_loop env fu fe t fuel (c1, w1) = Returned r (c', w')" by simp
      from Suc.IH [OF this] show ?thesis .
    qed
  qed
qed

lemma pending_decreases:
  assumes "1 \<le> batch_size (config c)" and "loop_cond fu fe c"
    and "flush_body env fu fe t (c, w) = Inr (c', w')"
  shows "pending fu fe c' < pending fu fe c"
proof -
  note f = flush_body_Inr [OF assms(3)]
  have u: "length (user_queue c') \<le> length (user_queue c)"
    using f by (auto simp: slice_from_def)
  have e: "length (event_queue c') \<le> length (event_queue c)"
    using f by (auto simp: slice_from_def)
  from assms(2) consider "fu \<and> user_queue c \<noteq> []" | "fe \<and> event_queue c \<noteq> []"
    by (auto simp: loop_cond_def)
  then show ?thesis
  proof cases
    case 1
    with assms(1) have "1 \<le> user_batch_size fu c"
      by (cases "user_queue c") (auto simp: user_batch_size_def)
    with f 1 have "length (user_queue c') < length (user_queue c)"
      by (auto simp: slice_from_def)
    with e 1 show ?thesis by (simp add: pending_def)
  next
    case 2
    with assms(1) have "1 \<le> event_batch_size fe c"
      by (cases "event_queue c") (auto simp: event_batch_size_def)
    with f 2 have "length (event_queue c') < length (event_queue c)"
      by (auto simp: slice_from_def)
    with u 2 show ?thesis by (simp add: pending_def)
  qed
qed

lemma flush_loop_terminates:
  "1 \<le> batch_size (config c) \<Longrightarrow> pending fu fe c \<le> fuel \<Longrightarrow>
   flush_loop env fu fe t fuel (c, w) \<noteq> Running s"
proof (induction fuel arbitrary: c w)
  case 0
  then have "\<not> loop_cond fu fe c"
    by (auto simp: pending_def loop_cond_def split: if_splits)
  then show ?case by simp
next
  case (Suc fuel)
  show ?case
  proof (cases "loop_cond fu fe c")
    case False
    then show ?thesis by simp
  next
    case True
    show ?thesis
    proof (cases "flush_body env fu fe t (c, w)")
      case (Inl x)
      with True show ?thesis by (auto split: prod.splits)
    next
      case (Inr y)
      obtain c1 w1 where y: "y = (c1, w1)" by (cases y)
      from pending_decreases [OF Suc.prems(1) True Inr [unfolded y]] Suc.prems(2)
      have "pending fu fe c1 \<le> fuel" by simp
      moreover from flush_body_Inr [OF Inr [unfolded y]] Suc.prems(1)
      have "1 \<le> batch_size (config c1)" by simp
      ultimately have "flush_loop env fu fe t fuel (c1, w1) \<noteq> Running s"
        by (rule Suc.IH [rotated])
      with True Inr y show ?thesis by simp
    qed
  qed
qed

subsection \<open>Dry runs\<close>

lemma c_dry_flush:
  "\<exists>c' w'. flush env0 True True 1 (c_dry, w0) = Returned RetNone (c', w')
     \<and> user_queue c' = [] \<and> event_queue c' = [] \<and> posts w' = []
     \<and> logged_requests (files w' ''braze.log'') = [build_request True True c_dry]"
  by (simp add: flush_def utcnow_def flush_body_def loop_cond_def log_request_def
      build_request_def user_batch_size_def event_batch_size_def prune_def dumps_ok_def
      dict_ok_def event_dict_ok_def user_as_dict_def event_as_dict_def slice_to_def slice_from_def
      append_file_def
      c_dry_def c0_def cfg0_def w0_def env0_def u0_def u1_def e0_def Let_def)

text \<open>
  Claim C6. With \<^verbatim>\<open>send\<close> off, \<^verbatim>\<open>flush\<close> hands nothing to the HTTP library: after
  any number of passes of its loop, whether the call has returned, raised or is still
  running, the list of posts is what it was before the call.
\<close>

theorem dry_run_never_posts:
  "\<not> send (config c) \<Longrightarrow>
   posts (snd (outcome_state (flush env fu fe fuel (c, w)))) = posts w"
  by (simp add: flush_def utcnow_def flush_loop_posts_nosend)

theorem dry_run_never_posts_witness:
  "\<not> send (config c_dry)
   \<and> posts (snd (outcome_state (flush env0 True True 1 (c_dry, w0)))) = []
   \<and> (\<exists>c' w'. flush env0 True True 1 (c_dry, w0) = Returned RetNone (c', w')
         \<and> logged_requests (files w' ''braze.log'') = [build_request True True c_dry])"
proof -
  have ns: "\<not> send (config c_dry)" by (simp add: c_dry_def c0_def cfg0_def)
  from dry_run_never_posts [OF ns, of env0 True True 1 w0]
  have "posts (snd (outcome_state (flush env0 True True 1 (c_dry, w0)))) = []"
    by (simp add: w0_def)
  with ns c_dry_flush show ?thesis by blast
qed

section \<open>Auto-flush\<close>

lemma flush_loop_suffix:
  "\<exists>k j. user_queue (fst (outcome_state (flush_loop env fu fe t fuel (c, w))))
            = drop k (user_queue c)
         \<and> event_queue (fst (outcome_state (flush_loop env fu fe t fuel (c, w))))
            = drop j (event_queue c)"
proof (induction fuel arbitrary: c w)
  case 0
  have "user_queue c = drop 0 (user_queue c) \<and> event_queue c = drop 0 (event_queue c)"
    by simp
  then show ?case by (auto simp del: drop_0 intro: exI [of _ 0])
next
  case (Suc fuel)
  have same: "\<exists>k j. user_queue c = drop k (user_queue c) \<and> event_queue c = drop j (event_queue c)"
    by (intro exI [of _ 0]) simp
  show ?case
  proof (cases "loop_cond fu fe c")
    case False
    with same show ?thesis by simp
  next
    case True
    show ?thesis
    proof (cases "flush_body env fu fe t (c, w)")
      case (Inl x)
      obtain e c1 w1 where x: "x = (e, c1, w1)" by (cases x)
      from flush_body_Inl [OF Inl [unfolded x]] same True Inl x show ?thesis by simp
    next
      case (Inr y)
      obtain c1 w1 where y: "y = (c1, w1)" by (cases y)
      from flush_body_Inr [OF Inr [unfolded y]]
      obtain k1 j1 where s1: "user_queue c1 = drop k1 (user_queue c)"
        "event_queue c1 = drop j1 (event_queue c)"
        by (auto simp: slice_from_def split: if_splits intro: that [of 0 0] that [of _ 0] that [of 0 _])
      from Suc.IH [of c1 w1] obtain k j where
        "user_queue (fst (outcome_state (flush_loop env fu fe t fuel (c1, w1))))
            = drop k (user_queue c1)"
        "event_queue (fst (outcome_state (flush_loop env fu fe t fuel (c1, w1))))
            = drop j (event_queue c1)" by blast
      with s1 have "user_queue (fst (outcome_state (flush_loop env fu fe t fuel (c1, w1))))
            = drop (k + k1) (user_queue c)
         \<and> event_queue (fst (outcome_state (flush_loop env fu fe t fuel (c1, w1))))
            = drop (j + j1) (event_queue c)" by simp
      with True Inr y show ?thesis by auto
    qed
  qed
qed


lemma flush_drains:
  assumes "1 \<le> batch_size (config c)" and "pending True True c \<le> fuel"
  shows "(\<exists>c' w'. flush env True True fuel (c, w) = Returned RetNone (c', w')
            \<and> user_queue c' = [] \<and> event_queue c' = [] \<and> config c' = config c)
         \<or> (\<exists>e c' w' k j. flush env True True fuel (c, w) = Raised e (c', w')
            \<and> user_queue c' = drop k (user_queue c)
            \<and> event_queue c' = drop j (event_queue c))"
proof -
  let ?t = "clock env (ticks w)"
  let ?w1 = "w\<lparr>ticks := Suc (ticks w)\<rparr>"
  have fl: "flush env True True fuel (c, w) = flush_loop env True True ?t fuel (c, ?w1)"
    by (simp add: flush_def utcnow_def)
  show ?thesis
  proof (cases "flush_loop env True True ?t fuel (c, ?w1)")
    case (Returned r s)
    obtain c' w' where s: "s = (c', w')" by (cases s)
    from flush_loop_Returned [OF Returned [unfolded s]]
    have "r = RetNone" and "user_queue c' = []" and "event_queue c' = []"
      by (auto simp: loop_cond_def)
    moreover from flush_loop_config [of env True True ?t fuel c ?w1] Returned s
    have "config c' = config c" by simp
    ultimately show ?thesis using Returned s fl by simp
  next
    case (Raised e s)
    obtain c' w' where s: "s = (c', w')" by (cases s)
    from flush_loop_suffix [of env True True ?t fuel c ?w1] Raised s
    obtain k j where "user_queue c' = drop k (user_queue c)"
      "event_queue c' = drop j (event_queue c)" by auto
    with Raised s fl show ?thesis by auto
  next
    case (Running s)
    with flush_loop_terminates [OF assms, of env ?t ?w1 s] show ?thesis by simp
  qed
qed

lemma c_auto_send_enqueue:
  "\<exists>c' w'. enqueue env_fail 2 (ObjUser u1) (c_auto_send, w0)
              = Raised (RequestException (JStr ''quota'')) (c', w')
     \<and> user_queue c' = [u0, u1] \<and> config c' = config c_auto_send
     \<and> map snd (posts w')
        = [\<lparr>rb_api_key = ''APIKEY'', attributes = Some [user_as_dict u0, user_as_dict u1],
            events = None\<rparr>]"
  by (simp add: enqueue_def flush_def utcnow_def flush_body_def loop_cond_def log_request_def
      dispatch_def json_get_def track_url_def
      build_request_def user_batch_size_def event_batch_size_def prune_def dumps_ok_def
      dict_ok_def event_dict_ok_def user_as_dict_def event_as_dict_def slice_to_def slice_from_def
      append_file_def
      c_auto_send_def c_auto_def c0_def cfg0_def w0_def env_fail_def u0_def u1_def e0_def Let_def
      eval_nat_numeral)

text \<open>
  Claim C5 as stated fails when the flush raises: auto-flush on, batch size 2, \<^verbatim>\<open>send\<close>
  on and a server that answers with an error. Enqueueing the second user runs the flush,
  which posts the batch and raises the API error before the slice removals; the call
  raises with both users still queued, not fewer than 2.
\<close>

theorem auto_flush_error_leaves_batch:
  "auto_flush (config c_auto_send) \<and> batch_size (config c_auto_send) = 2
   \<and> user_queue c_auto_send = [u0]
   \<and> (\<exists>c' w'. enqueue env_fail 2 (ObjUser u1) (c_auto_send, w0)
                  = Raised (RequestException (JStr ''quota'')) (c', w')
         \<and> user_queue c' = [u0, u1]
         \<and> \<not> int (length (user_queue c')) < batch_size (config c'))"
proof -
  have f: "auto_flush (config c_auto_send) \<and> batch_size (config c_auto_send) = 2
           \<and> user_queue c_auto_send = [u0]"
    by (simp add: c_auto_send_def c_auto_def c0_def cfg0_def)
  from c_auto_send_enqueue obtain c' w' where
    r: "enqueue env_fail 2 (ObjUser u1) (c_auto_send, w0)
              = Raised (RequestException (JStr ''quota'')) (c', w')"
    and q: "user_queue c' = [u0, u1]" and c: "config c' = config c_auto_send"
    by iprover
  from q c f have "\<not> int (length (user_queue c')) < batch_size (config c')" by simp
  with r q have "\<exists>c' w'. enqueue env_fail 2 (ObjUser u1) (c_auto_send, w0)
                  = Raised (RequestException (JStr ''quota'')) (c', w')
         \<and> user_queue c' = [u0, u1]
         \<and> \<not> int (length (user_queue c')) < batch_size (config c')"
    by iprover
  with f show ?thesis by iprover
qed

text \<open>
  Claim C5, amended. \<^verbatim>\<open>enqueue\<close> of a user or an event appends it and then, exactly
  when auto-flush is on and the user queue or the event queue has reached the batch
  size, runs one \<^verbatim>\<open>flush\<close> of both queues on the appended state before it returns.
  With a batch size \<open>B\<close> of at least 1 that flush ends (given one pass of fuel for each
  queued record). When the call returns, both queues are empty, so fewer than \<open>B\<close> users
  are queued. When the flush raises, the call raises the same error and what is queued
  is a tail of each appended queue: the records not yet sent, in order.
\<close>

theorem auto_flush_on_threshold:
  "enqueue env fuel (ObjUser u) (c, w)
     = (if auto_flush (config c)
           \<and> (batch_size (config c) \<le> int (length (user_queue c @ [u]))
              \<or> batch_size (config c) \<le> int (length (event_queue c)))
        then flush env True True fuel (c\<lparr>user_queue := user_queue c @ [u]\<rparr>, w)
        else Returned RetNone (c\<lparr>user_queue := user_queue c @ [u]\<rparr>, w))
   \<and> enqueue env fuel (ObjEvent e) (c, w)
     = (if auto_flush (config c)
           \<and> (batch_size (config c) \<le> int (length (user_queue c))
              \<or> batch_size (config c) \<le> int (length (event_queue c @ [e])))
        then flush env True True fuel (c\<lparr>event_queue := event_queue c @ [e]\<rparr>, w)
        else Returned RetNone (c\<lparr>event_queue := event_queue c @ [e]\<rparr>, w))
   \<and> (\<forall>obj c1.
         (obj = ObjUser u \<and> c1 = c\<lparr>user_queue := user_queue c @ [u]\<rparr>
          \<or> obj = ObjEvent e \<and> c1 = c\<lparr>event_queue := event_queue c @ [e]\<rparr>)
         \<and> auto_flush (config c) \<and> 1 \<le> batch_size (config c)
         \<and> (batch_size (config c) \<le> int (length (user_queue c1))
            \<or> batch_size (config c) \<le> int (length (event_queue c1)))
         \<and> length (user_queue c1) + length (event_queue c1) \<le> fuel
        \<longrightarrow> enqueue env fuel obj (c, w) = flush env True True fuel (c1, w)
            \<and> ((\<exists>c' w'. enqueue env fuel obj (c, w) = Returned RetNone (c', w')
                   \<and> user_queue c' = [] \<and> event_queue c' = []
                   \<and> int (length (user_queue c')) < batch_size (config c'))
               \<or> (\<exists>err c' w' k j. enqueue env fuel obj (c, w) = Raised err (c', w')
                   \<and> user_queue c' = drop k (user_queue c1)
                   \<and> event_queue c' = drop j (event_queue c1))))"
proof (intro conjI allI impI)
  show "enqueue env fuel (ObjUser u) (c, w)
     = (if auto_flush (config c)
           \<and> (batch_size (config c) \<le> int (length (user_queue c @ [u]))
              \<or> batch_size (config c) \<le> int (length (event_queue c)))
        then flush env True True fuel (c\<lparr>user_queue := user_queue c @ [u]\<rparr>, w)
        else Returned RetNone (c\<lparr>user_queue := user_queue c @ [u]\<rparr>, w))"
    by (auto simp: enqueue_def Let_def)
  show "enqueue env fuel (ObjEvent e) (c, w)
     = (if auto_flush (config c)
           \<and> (batch_size (config c) \<le> int (length (user_queue c))
              \<or> batch_size (config c) \<le> int (length (event_queue c @ [e])))
        then flush env True True fuel (c\<lparr>event_queue := event_queue c @ [e]\<rparr>, w)
        else Returned RetNone (c\<lparr>event_queue := event_queue c @ [e]\<rparr>, w))"
    by (auto simp: enqueue_def Let_def)
next
  fix obj c1
  assume h: "(obj = ObjUser u \<and> c1 = c\<lparr>user_queue := user_queue c @ [u]\<rparr>
          \<or> obj = ObjEvent e \<and> c1 = c\<lparr>event_queue := event_queue c @ [e]\<rparr>)
         \<and> auto_flush (config c) \<and> 1 \<le> batch_size (config c)
         \<and> (batch_size (config c) \<le> int (length (user_queue c1))
            \<or> batch_size (config c) \<le> int (length (event_queue c1)))
         \<and> length (user_queue c1) + length (event_queue c1) \<le> fuel"
  then have cfg: "config c1 = config c" by auto
  from h show eq: "enqueue env fuel obj (c, w) = flush env True True fuel (c1, w)"
    by (auto simp: enqueue_def Let_def)
  from h cfg have b: "1 \<le> batch_size (config c1)" and p: "pending True True c1 \<le> fuel"
    by (simp_all add: pending_def)
  from flush_drains [OF b p, of env w]
  show "(\<exists>c' w'. enqueue env fuel obj (c, w) = Returned RetNone (c', w')
                   \<and> user_queue c' = [] \<and> event_queue c' = []
                   \<and> int (length (user_queue c')) < batch_size (config c'))
               \<or> (\<exists>err c' w' k j. enqueue env fuel obj (c, w) = Raised err (c', w')
                   \<and> user_queue c' = drop k (user_queue c1)
                   \<and> event_queue c' = drop j (event_queue c1))"
  proof
    assume "\<exists>c' w'. flush env True True fuel (c1, w) = Returned RetNone (c', w')
            \<and> user_queue c' = [] \<and> event_queue c' = [] \<and> config c' = config c1"
    then obtain c' w' where r: "flush env True True fuel (c1, w) = Returned RetNone (c', w')"
      and q: "user_queue c' = []" "event_queue c' = []" and c': "config c' = config c1"
      by blast
    from b q c' have "int (length (user_queue c')) < batch_size (config c')" by simp
    with r q eq show ?thesis by auto
  next
    assume "\<exists>e c' w' k j. flush env True True fuel (c1, w) = Raised e (c', w')
            \<and> user_queue c' = drop k (user_queue c1)
            \<and> event_queue c' = drop j (event_queue c1)"
    with eq show ?thesis by auto
  qed
qed

lemma c_auto_enqueue:
  "\<exists>c' w'. enqueue env0 2 (ObjUser u1) (c_auto, w0) = Returned RetNone (c', w')
     \<and> user_queue c' = [] \<and> length (requests c') = 1
     \<and> logged_requests (files w' ''braze.log'')
        = [\<lparr>rb_api_key = ''APIKEY'', attributes = Some [user_as_dict u0, user_as_dict u1],
            events = None\<rparr>]"
  by (simp add: enqueue_def flush_def utcnow_def flush_body_def loop_cond_def log_request_def
      build_request_def user_batch_size_def event_batch_size_def prune_def dumps_ok_def
      dict_ok_def event_dict_ok_def user_as_dict_def event_as_dict_def slice_to_def slice_from_def
      append_file_def
      c_auto_def c0_def cfg0_def w0_def env0_def u0_def u1_def e0_def Let_def
      eval_nat_numeral)

theorem auto_flush_on_threshold_witness:
  "auto_flush (config c_auto) \<and> batch_size (config c_auto) = 2
   \<and> length (user_queue c_auto) = 1 \<and> event_queue c_auto = []
   \<and> enqueue env0 2 (ObjUser u1) (c_auto, w0)
       = flush env0 True True 2 (c_auto\<lparr>user_queue := user_queue c_auto @ [u1]\<rparr>, w0)
   \<and> (\<exists>c' w'. enqueue env0 2 (ObjUser u1) (c_auto, w0) = Returned RetNone (c', w')
         \<and> user_queue c' = [] \<and> event_queue c' = []
         \<and> int (length (user_queue c')) < batch_size (config c'))"
proof -
  let ?c1 = "c_auto\<lparr>user_queue := user_queue c_auto @ [u1]\<rparr>"
  have h: "(ObjUser u1 = ObjUser u1 \<and> ?c1 = c_auto\<lparr>user_queue := user_queue c_auto @ [u1]\<rparr>
          \<or> ObjUser u1 = ObjEvent e0 \<and> ?c1 = c_auto\<lparr>event_queue := event_queue c_auto @ [e0]\<rparr>)
         \<and> auto_flush (config c_auto) \<and> 1 \<le> batch_size (config c_auto)
         \<and> (batch_size (config c_auto) \<le> int (length (user_queue ?c1))
            \<or> batch_size (config c_auto) \<le> int (length (event_queue ?c1)))
         \<and> length (user_queue ?c1) + length (event_queue ?c1) \<le> 2"
    by (simp add: c_auto_def c0_def cfg0_def)
  have f: "auto_flush (config c_auto) \<and> batch_size (config c_auto) = 2
   \<and> length (user_queue c_auto) = 1 \<and> event_queue c_auto = []"
    by (simp add: c_auto_def c0_def cfg0_def)
  from c_auto_enqueue
  have nr: "\<not> (\<exists>err c' w' k j. enqueue env0 2 (ObjUser u1) (c_auto, w0) = Raised err (c', w')
                   \<and> user_queue c' = drop k (user_queue ?c1)
                   \<and> event_queue c' = drop j (event_queue ?c1))"
    by auto
  note th = auto_flush_on_threshold [of env0 2 u1 c_auto w0 e0]
  from th h have a: "enqueue env0 2 (ObjUser u1) (c_auto, w0) = flush env0 True True 2 (?c1, w0)"
    and b: "(\<exists>c' w'. enqueue env0 2 (ObjUser u1) (c_auto, w0) = Returned RetNone (c', w')
                   \<and> user_queue c' = [] \<and> event_queue c' = []
                   \<and> int (length (user_queue c')) < batch_size (config c'))
               \<or> (\<exists>err c' w' k j. enqueue env0 2 (ObjUser u1) (c_auto, w0) = Raised err (c', w')
                   \<and> user_queue c' = drop k (user_queue ?c1)
                   \<and> event_queue c' = drop j (event_queue ?c1))"
    by blast+
  from b nr have "\<exists>c' w'. enqueue env0 2 (ObjUser u1) (c_auto, w0) = Returned RetNone (c', w')
         \<and> user_queue c' = [] \<and> event_queue c' = []
         \<and> int (length (user_queue c')) < batch_size (config c')"
    by iprover
  with f a show ?thesis by iprover
qed

subsection \<open>The request log\<close>

lemma keys_map_entry: "map fst (AList.map_entry k f al) = map fst al"
  by (induction al) auto

lemma dispatch_requests:
  "map fst (requests (fst (pass_state (dispatch env t body (c, w))))) = map fst (requests c)
   \<and> (\<forall>k. k \<noteq> t \<longrightarrow>
         map_of (requests (fst (pass_state (dispatch env t body (c, w))))) k
           = map_of (requests c) k)"
  by (auto simp: dispatch_def pass_state_def Let_def keys_map_entry map_of_map_entry
      split: sum.splits option.splits)

lemma dispatch_entry:
  assumes "dispatch env t body (c, w) = Inr (c', w')"
  shows "\<exists>r resp. server env (posts w') = Inr r \<and> content r = Some resp
           \<and> map_of (requests c') t
              = map_option (\<lambda>entry. entry\<lparr>re_ok := Some (ok r),
                                             re_status := Some (status_code r),
                                             re_response := Some resp\<rparr>)
                  (map_of (requests c) t)"
  using assms
  by (auto simp: dispatch_def Let_def map_of_map_entry append_file_def
      split: if_splits sum.splits option.splits)

lemma flush_body_requests:
  "(map fst (requests (fst (pass_state (flush_body env fu fe t (c, w))))) = map fst (requests c)
    \<or> t \<notin> set (map fst (requests c))
      \<and> map fst (requests (fst (pass_state (flush_body env fu fe t (c, w)))))
          = map fst (requests c) @ [t])
   \<and> (\<forall>k. k \<noteq> t \<longrightarrow>
         map_of (requests (fst (pass_state (flush_body env fu fe t (c, w))))) k
           = map_of (requests c) k)"
proof (cases "log_request env (build_request fu fe c) (c, w)")
  case (Inl x)
  obtain e c1 w1 where x: "x = (e, c1, w1)" by (cases x)
  from Inl x log_request_Inl have "c1 = c" by blast
  with Inl x show ?thesis by (simp add: flush_body_def pass_state_def)
next
  case (Inr y)
  obtain c1 w1 where y: "y = (c1, w1)" by (cases y)
  with Inr log_request_Inr have c1: "c1 = c" by blast
  let ?c1 = "c\<lparr>requests := AList.update t
               \<lparr>request = build_request fu fe c, url = track_url c, timestamp = t,
                re_ok = None, re_status = None, re_response = None\<rparr> (requests c)\<rparr>"
  have k1: "map fst (requests ?c1) = map fst (requests c)
            \<or> t \<notin> set (map fst (requests c))
              \<and> map fst (requests ?c1) = map fst (requests c) @ [t]"
    by (simp add: update_keys)
  have m1: "\<forall>k. k \<noteq> t \<longrightarrow> map_of (requests ?c1) k = map_of (requests c) k"
    by (simp add: update_conv')
  show ?thesis
  proof (cases "send (config c)")
    case False
    have "fst (pass_state (flush_body env fu fe t (c, w)))
          = fst (prune (user_batch_size fu c) (event_batch_size fe c) (?c1, w1))"
      using Inr y c1 False by (simp add: flush_body_def pass_state_def Let_def)
    moreover have "requests (fst (prune (user_batch_size fu c) (event_batch_size fe c) (?c1, w1)))
          = requests ?c1"
      using prune_fields [of "user_batch_size fu c" "event_batch_size fe c" ?c1 w1]
      by (cases "prune (user_batch_size fu c) (event_batch_size fe c) (?c1, w1)") simp
    ultimately show ?thesis using k1 m1 by simp
  next
    case True
    let ?d = "dispatch env t (build_request fu fe c) (?c1, w1)"
    have "requests (fst (pass_state (flush_body env fu fe t (c, w))))
          = requests (fst (pass_state ?d))"
    proof (cases ?d)
      case (Inl x)
      with Inr y c1 True show ?thesis by (simp add: flush_body_def pass_state_def Let_def)
    next
      case d: (Inr s2)
      obtain c2 w2 where s2: "s2 = (c2, w2)" by (cases s2)
      have "requests (fst (prune (user_batch_size fu c) (event_batch_size fe c) (c2, w2)))
            = requests c2"
        using prune_fields [of "user_batch_size fu c" "event_batch_size fe c" c2 w2]
        by (cases "prune (user_batch_size fu c) (event_batch_size fe c) (c2, w2)") simp
      with Inr y c1 True d s2 show ?thesis
        by (simp add: flush_body_def pass_state_def Let_def)
    qed
    with dispatch_requests [of env t "build_request fu fe c" ?c1 w1] k1 m1
    show ?thesis by simp
  qed
qed


lemma flush_body_entry:
  assumes "flush_body env fu fe t (c, w) = Inr (c', w')"
  shows "\<exists>entry. map_of (requests c') t = Some entry
           \<and> request entry = build_request fu fe c \<and> url entry = track_url c
           \<and> timestamp entry = t
           \<and> (if send (config c)
               then \<exists>r resp. server env (posts w') = Inr r \<and> content r = Some resp
                      \<and> re_ok entry = Some (ok r) \<and> re_status entry = Some (status_code r)
                      \<and> re_response entry = Some resp
               else re_ok entry = None \<and> re_status entry = None \<and> re_response entry = None)"
proof (cases "log_request env (build_request fu fe c) (c, w)")
  case (Inl x)
  with assms show ?thesis by (simp add: flush_body_def Let_def)
next
  case (Inr y)
  obtain c1 w1 where y: "y = (c1, w1)" by (cases y)
  with Inr log_request_Inr have c1: "c1 = c" by blast
  let ?e = "\<lparr>request = build_request fu fe c, url = track_url c, timestamp = t,
             re_ok = None, re_status = None, re_response = None\<rparr>"
  let ?c1 = "c\<lparr>requests := AList.update t ?e (requests c)\<rparr>"
  have m1: "map_of (requests ?c1) t = Some ?e" by (simp add: update_conv')
  show ?thesis
  proof (cases "send (config c)")
    case False
    with assms Inr y c1
    have p: "prune (user_batch_size fu c) (event_batch_size fe c) (?c1, w1) = (c', w')"
      by (auto simp: flush_body_def Let_def split: if_splits sum.splits)
    from prune_fields [OF p] have "requests c' = requests ?c1" by simp
    with m1 False show ?thesis by simp
  next
    case True
    with assms Inr y c1 obtain s2 where
      d: "dispatch env t (build_request fu fe c) (?c1, w1) = Inr s2"
      and p: "prune (user_batch_size fu c) (event_batch_size fe c) s2 = (c', w')"
      by (auto simp: flush_body_def Let_def split: if_splits sum.splits)
    obtain c2 w2 where s2: "s2 = (c2, w2)" by (cases s2)
    from dispatch_entry [OF d [unfolded s2]] m1 obtain r resp where
      r: "server env (posts w2) = Inr r" "content r = Some resp"
      and m2: "map_of (requests c2) t
                 = Some (?e\<lparr>re_ok := Some (ok r), re_status := Some (status_code r),
                             re_response := Some resp\<rparr>)"
      by auto
    from prune_fields [OF p [unfolded s2]]
    have "requests c' = requests c2" and "posts w' = posts w2" by simp_all
    with r m2 True show ?thesis by auto
  qed
qed

lemma keys_step_trans:
  "K1 = K \<or> t \<notin> set K \<and> K1 = K @ [t] \<Longrightarrow>
   K2 = K1 \<or> t \<notin> set K1 \<and> K2 = K1 @ [t] \<Longrightarrow>
   K2 = K \<or> t \<notin> set K \<and> K2 = K @ [t]"
  by auto

lemma flush_loop_requests:
  "(map fst (requests (fst (outcome_state (flush_loop env fu fe t fuel (c, w)))))
      = map fst (requests c)
    \<or> t \<notin> set (map fst (requests c))
      \<and> map fst (requests (fst (outcome_state (flush_loop env fu fe t fuel (c, w)))))
          = map fst (requests c) @ [t])
   \<and> (\<forall>k. k \<noteq> t \<longrightarrow>
         map_of (requests (fst (outcome_state (flush_loop env fu fe t fuel (c, w))))) k
           = map_of (requests c) k)"
proof (induction fuel arbitrary: c w)
  case 0
  show ?case by simp
next
  case (Suc fuel)
  show ?case
  proof (cases "loop_cond fu fe c")
    case False
    then show ?thesis by simp
  next
    case True
    note step = flush_body_requests [of env fu fe t c w]
    show ?thesis
    proof (cases "flush_body env fu fe t (c, w)")
      case (Inl x)
      obtain e c1 w1 where x: "x = (e, c1, w1)" by (cases x)
      from step Inl x True show ?thesis by (simp add: pass_state_def)
    next
      case (Inr y)
      obtain c1 w1 where y: "y = (c1, w1)" by (cases y)
      from step Inr y
      have s1: "map fst (requests c1) = map fst (requests c)
                \<or> t \<notin> set (map fst (requests c))
                  \<and> map fst (requests c1) = map fst (requests c) @ [t]"
        and s2: "\<forall>k. k \<noteq> t \<longrightarrow> map_of (requests c1) k = map_of (requests c) k"
        by (simp_all add: pass_state_def)
      let ?c' = "fst (outcome_state (flush_loop env fu fe t fuel (c1, w1)))"
      from Suc.IH [of c1 w1]
      have i1: "map fst (requests ?c') = map fst (requests c1)
                \<or> t \<notin> set (map fst (requests c1))
                  \<and> map fst (requests ?c') = map fst (requests c1) @ [t]"
        and i2: "\<forall>k. k \<noteq> t \<longrightarrow> map_of (requests ?c') k = map_of (requests c1) k"
        by blast+
      have eq: "flush_loop env fu fe t (Suc fuel) (c, w) = flush_loop env fu fe t fuel (c1, w1)"
        using True Inr y by simp
      from s1 i1 have "map fst (requests ?c') = map fst (requests c)
                \<or> t \<notin> set (map fst (requests c))
                  \<and> map fst (requests ?c') = map fst (requests c) @ [t]"
        by (rule keys_step_trans)
      moreover from s2 i2 have "\<forall>k. k \<noteq> t \<longrightarrow> map_of (requests ?c') k = map_of (requests c) k"
        by simp
      ultimately show ?thesis unfolding eq by blast
    qed
  qed
qed


lemma c_two_flush:
  "\<exists>c' w'. flush env0 True False 2 (c_two, w0) = Returned RetNone (c', w')
     \<and> map attributes (logged_requests (files w' ''braze.log''))
         = [Some [user_as_dict u0], Some [user_as_dict u1]]
     \<and> map (\<lambda>(k, entry). (k, attributes (request entry))) (requests c')
         = [(t0, Some [user_as_dict u1])]"
  by (simp add: flush_def utcnow_def flush_body_def loop_cond_def log_request_def
      build_request_def user_batch_size_def event_batch_size_def prune_def dumps_ok_def
      dict_ok_def event_dict_ok_def user_as_dict_def event_as_dict_def slice_to_def slice_from_def
      append_file_def
      c_two_def c0_def cfg0_def w0_def env0_def u0_def u1_def e0_def Let_def
      eval_nat_numeral)

lemma c_two_send_flush:
  "\<exists>c' w'. flush env_two True False 2 (c_two_send, w0) = Returned RetNone (c', w')
     \<and> map (\<lambda>(u, b). attributes b) (posts w')
         = [Some [user_as_dict u0], Some [user_as_dict u1]]
     \<and> map (\<lambda>(k, entry). (attributes (request entry), re_status entry)) (requests c')
         = [(Some [user_as_dict u1], Some 202)]"
  by (simp add: flush_def utcnow_def flush_body_def loop_cond_def log_request_def
      dispatch_def json_get_def track_url_def
      build_request_def user_batch_size_def event_batch_size_def prune_def dumps_ok_def
      dict_ok_def event_dict_ok_def user_as_dict_def event_as_dict_def slice_to_def slice_from_def
      append_file_def
      c_two_send_def c_two_def c0_def cfg0_def w0_def env_two_def u0_def u1_def e0_def Let_def
      eval_nat_numeral)

text \<open>
  Claim C2, at an input where it fails. A flush of two users with batch size 1 builds two
  request bodies; the log file has both, and \<^verbatim>\<open>self.requests\<close> ends with one entry,
  that of the second batch: the flush timestamp is read once before the loop, so the
  second pass stores its entry under the key of the first. With \<^verbatim>\<open>send\<close> on both
  bodies are posted and the one entry holds the second body and the status of the second
  response; the outcome of the first post is gone.
\<close>

theorem request_log_overwrites_batches:
  "(\<exists>c' w'. flush env0 True False 2 (c_two, w0) = Returned RetNone (c', w')
      \<and> map attributes (logged_requests (files w' ''braze.log''))
          = [Some [user_as_dict u0], Some [user_as_dict u1]]
      \<and> length (requests c') = 1
      \<and> map (\<lambda>(k, entry). attributes (request entry)) (requests c')
          = [Some [user_as_dict u1]])
   \<and> (\<exists>c' w'. flush env_two True False 2 (c_two_send, w0) = Returned RetNone (c', w')
      \<and> map (\<lambda>(u, b). attributes b) (posts w')
          = [Some [user_as_dict u0], Some [user_as_dict u1]]
      \<and> map (\<lambda>(k, entry). (attributes (request entry), re_status entry)) (requests c')
          = [(Some [user_as_dict u1], Some 202)])"
proof -
  from c_two_flush obtain c' w' where
    r: "flush env0 True False 2 (c_two, w0) = Returned RetNone (c', w')"
    and l: "map attributes (logged_requests (files w' ''braze.log''))
         = [Some [user_as_dict u0], Some [user_as_dict u1]]"
    and m: "map (\<lambda>(k, entry). (k, attributes (request entry))) (requests c')
         = [(t0, Some [user_as_dict u1])]"
    by iprover
  from m have "map snd (map (\<lambda>(k, entry). (k, attributes (request entry))) (requests c'))
         = [Some [user_as_dict u1]]" by simp
  then have m2: "map (\<lambda>(k, entry). attributes (request entry)) (requests c')
         = [Some [user_as_dict u1]]"
    by (simp add: case_prod_unfold comp_def)
  from m have "length (map (\<lambda>(k, entry). (k, attributes (request entry))) (requests c')) = 1"
    by simp
  then have "length (requests c') = 1" by simp
  with r l m2 have "\<exists>c' w'. flush env0 True False 2 (c_two, w0) = Returned RetNone (c', w')
      \<and> map attributes (logged_requests (files w' ''braze.log''))
          = [Some [user_as_dict u0], Some [user_as_dict u1]]
      \<and> length (requests c') = 1
      \<and> map (\<lambda>(k, entry). attributes (request entry)) (requests c')
          = [Some [user_as_dict u1]]"
    by iprover
  with c_two_send_flush show ?thesis by iprover
qed

text \<open>
  The part of the claim that holds: nothing is pruned. A \<^verbatim>\<open>flush\<close> call keeps every
  key of \<^verbatim>\<open>self.requests\<close> in its place and leaves the entries under all keys other
  than its own timestamp as they were.
\<close>

lemma request_log_keys_kept:
  "(map fst (requests (fst (outcome_state (flush env fu fe fuel (c, w)))))
      = map fst (requests c)
    \<or> clock env (ticks w) \<notin> set (map fst (requests c))
      \<and> map fst (requests (fst (outcome_state (flush env fu fe fuel (c, w)))))
          = map fst (requests c) @ [clock env (ticks w)])
   \<and> (\<forall>k. k \<noteq> clock env (ticks w) \<longrightarrow>
         map_of (requests (fst (outcome_state (flush env fu fe fuel (c, w))))) k
           = map_of (requests c) k)"
proof -
  have fl: "flush env fu fe fuel (c, w)
            = flush_loop env fu fe (clock env (ticks w)) fuel (c, w\<lparr>ticks := Suc (ticks w)\<rparr>)"
    by (simp add: flush_def utcnow_def)
  from flush_loop_requests [of env fu fe "clock env (ticks w)" fuel c
      "w\<lparr>ticks := Suc (ticks w)\<rparr>"]
  show ?thesis unfolding fl by blast
qed

subsection \<open>Posts and error responses\<close>

lemma flush_body_posts_send:
  assumes "send (config c)" and "dumps_ok (build_request fu fe c)"
  shows "posts (snd (pass_state (flush_body env fu fe t (c, w))))
         = posts w @ [(track_url c, build_request fu fe c)]"
proof -
  from log_request_passes [of c "build_request fu fe c" env w] assms(2)
  obtain w1 where l: "log_request env (build_request fu fe c) (c, w) = Inr (c, w1)"
    and p1: "posts w1 = posts w" by blast
  let ?c1 = "c\<lparr>requests := AList.update t
               \<lparr>request = build_request fu fe c, url = track_url c, timestamp = t,
                re_ok = None, re_status = None, re_response = None\<rparr> (requests c)\<rparr>"
  let ?d = "dispatch env t (build_request fu fe c) (?c1, w1)"
  have "posts (snd (pass_state (flush_body env fu fe t (c, w))))
        = posts (snd (case ?d of Inl (e, s) \<Rightarrow> s | Inr s \<Rightarrow> s))"
  proof (cases ?d)
    case (Inl x)
    with l assms(1) show ?thesis by (simp add: flush_body_def pass_state_def Let_def)
  next
    case (Inr s2)
    obtain c2 w2 where s2: "s2 = (c2, w2)" by (cases s2)
    have "posts (snd (prune (user_batch_size fu c) (event_batch_size fe c) (c2, w2))) = posts w2"
      using prune_fields [of "user_batch_size fu c" "event_batch_size fe c" c2 w2]
      by (cases "prune (user_batch_size fu c) (event_batch_size fe c) (c2, w2)") simp
    with Inr s2 l assms(1) show ?thesis by (simp add: flush_body_def pass_state_def Let_def)
  qed
  also have "\<dots> = posts w1 @ [(track_url ?c1, build_request fu fe c)]"
    using assms(2) by (rule dispatch_posts)
  finally show ?thesis using p1 by (simp add: track_url_def)
qed

lemma flush_loop_posts_prefix:
  "\<exists>added. posts (snd (outcome_state (flush_loop env fu fe t fuel (c, w)))) = posts w @ added"
proof (induction fuel arbitrary: c w)
  case 0
  show ?case by simp
next
  case (Suc fuel)
  show ?case
  proof (cases "loop_cond fu fe c")
    case False
    then show ?thesis by simp
  next
    case True
    show ?thesis
    proof (cases "flush_body env fu fe t (c, w)")
      case (Inl x)
      obtain e c1 w1 where x: "x = (e, c1, w1)" by (cases x)
      from flush_body_Inl [OF Inl [unfolded x]] True Inl x show ?thesis by auto
    next
      case (Inr y)
      obtain c1 w1 where y: "y = (c1, w1)" by (cases y)
      from flush_body_Inr [OF Inr [unfolded y]]
      have "\<exists>a. posts w1 = posts w @ a" by (auto split: if_splits)
      with Suc.IH [of c1 w1] True Inr y show ?thesis by auto
    qed
  qed
qed

lemma flush_loop_error:
  assumes "outcome_state (flush_loop env fu fe t fuel (c, w)) = (c', w')"
    and "length (posts w) < n" and "n \<le> length (posts w')"
    and "error_field env (take n (posts w')) = Some err"
  shows "n = length (posts w')
         \<and> flush_loop env fu fe t fuel (c, w) = Raised (RequestException err) (c', w')
         \<and> last (posts w') = (track_url c', build_request fu fe c')
         \<and> send (config c') \<and> loop_cond fu fe c' \<and> dumps_ok (build_request fu fe c')"
  using assms
proof (induction fuel arbitrary: c w)
  case 0
  then show ?case by (auto split: if_splits)
next
  case (Suc fuel)
  show ?case
  proof (cases "loop_cond fu fe c")
    case False
    with Suc.prems show ?thesis by simp
  next
    case True
    show ?thesis
    proof (cases "flush_body env fu fe t (c, w)")
      case (Inl x)
      obtain e c1 w1 where x: "x = (e, c1, w1)" by (cases x)
      from True Inl x
      have out: "flush_loop env fu fe t (Suc fuel) (c, w) = Raised e (c1, w1)" by simp
      with Suc.prems(1) have cw: "c1 = c'" "w1 = w'" by simp_all
      note f = flush_body_Inl [OF Inl [unfolded x cw]]
      from f Suc.prems(2,3)
      have p: "posts w' = posts w @ [(track_url c, build_request fu fe c)]"
        and s: "send (config c)" and d: "dumps_ok (build_request fu fe c)"
        and er: "\<forall>err. error_field env (posts w') = Some err \<longrightarrow> e = RequestException err"
        by auto
      from p Suc.prems(2,3) have n: "n = length (posts w')" by simp
      with Suc.prems(4) er have e: "e = RequestException err" by simp
      from f have b: "build_request fu fe c' = build_request fu fe c"
        "track_url c' = track_url c" "loop_cond fu fe c' = loop_cond fu fe c"
        using build_request_cong [of c' c fu fe] by simp_all
      from n out e cw p s d b f True show ?thesis by simp
    next
      case (Inr y)
      obtain c1 w1 where y: "y = (c1, w1)" by (cases y)
      from True Inr y
      have out: "flush_loop env fu fe t (Suc fuel) (c, w) = flush_loop env fu fe t fuel (c1, w1)"
        by simp
      with Suc.prems(1)
      have st: "outcome_state (flush_loop env fu fe t fuel (c1, w1)) = (c', w')" by simp
      from flush_loop_posts_prefix [of env fu fe t fuel c1 w1] st
      obtain added where pre: "posts w' = posts w1 @ added" by auto
      note f = flush_body_Inr [OF Inr [unfolded y]]
      have "length (posts w1) < n"
      proof (rule ccontr)
        assume "\<not> length (posts w1) < n"
        with Suc.prems(2) f have sd: "send (config c)" and n1: "n = length (posts w1)"
          and ef: "error_field env (posts w1) = None"
          by (auto split: if_splits)
        from n1 pre have "take n (posts w') = posts w1" by simp
        with Suc.prems(4) ef show False by simp
      qed
      from Suc.IH [OF st this Suc.prems(3,4)] out show ?thesis by simp
    qed
  qed
qed

lemma flush_loop_first_post:
  assumes "send (config c)" and "loop_cond fu fe c" and "dumps_ok (build_request fu fe c)"
  shows "\<exists>rest. posts (snd (outcome_state (flush_loop env fu fe t (Suc fuel) (c, w))))
           = posts w @ [(track_url c, build_request fu fe c)] @ rest"
proof (cases "flush_body env fu fe t (c, w)")
  case (Inl x)
  obtain e c1 w1 where x: "x = (e, c1, w1)" by (cases x)
  from flush_body_posts_send [OF assms(1,3), of env t w] Inl x
  have "posts w1 = posts w @ [(track_url c, build_request fu fe c)]"
    by (simp add: pass_state_def)
  with assms(2) Inl x show ?thesis by simp
next
  case (Inr y)
  obtain c1 w1 where y: "y = (c1, w1)" by (cases y)
  from flush_body_posts_send [OF assms(1,3), of env t w] Inr y
  have p: "posts w1 = posts w @ [(track_url c, build_request fu fe c)]"
    by (simp add: pass_state_def)
  from flush_loop_posts_prefix [of env fu fe t fuel c1 w1]
  obtain added where "posts (snd (outcome_state (flush_loop env fu fe t fuel (c1, w1))))
      = posts w1 @ added" by auto
  with p assms(2) Inr y show ?thesis by simp
qed


lemma run_err_value:
  "\<exists>c' w'. run_err = Raised (RequestException (JStr ''quota'')) (c', w')
     \<and> user_queue c' = [u1]
     \<and> map snd (posts w')
        = [\<lparr>rb_api_key = ''APIKEY'', attributes = Some [user_as_dict u0], events = None\<rparr>,
           \<lparr>rb_api_key = ''APIKEY'', attributes = Some [user_as_dict u1], events = None\<rparr>]"
  by (simp add: run_err_def flush_def utcnow_def flush_body_def loop_cond_def log_request_def
      dispatch_def json_get_def track_url_def
      build_request_def user_batch_size_def event_batch_size_def prune_def dumps_ok_def
      dict_ok_def event_dict_ok_def user_as_dict_def event_as_dict_def slice_to_def slice_from_def
      append_file_def
      c_send_def c0_def cfg0_def w0_def env_err_def u0_def u1_def e0_def Let_def
      eval_nat_numeral)

text \<open>
  Claim C1. Take any post made during a \<^verbatim>\<open>flush\<close> call (the \<open>n\<close>-th post overall,
  \<open>n\<close> beyond the posts made before the call) whose response has an \<^verbatim>\<open>error\<close> field
  that is not null. Then it was the last post of the call, the call raised the API error
  with that field, and the batch is still queued: the request body built from the front of
  the queues left behind is the body of that post, so any later \<^verbatim>\<open>flush\<close> with the same
  flags posts that same body first. A pass that raises leaves both queues as they were
  when it started: the two slice removals are not reached.
\<close>

theorem api_error_keeps_batch:
  assumes "outcome_state (flush env fu fe fuel (c, w)) = (c', w')"
    and "length (posts w) < n" and "n \<le> length (posts w')"
    and "error_field env (take n (posts w')) = Some err"
  shows "flush env fu fe fuel (c, w) = Raised (RequestException err) (c', w')
       \<and> n = length (posts w')
       \<and> last (posts w') = (track_url c', build_request fu fe c')
       \<and> (\<forall>env2 fuel2 w2. \<exists>rest.
             posts (snd (outcome_state (flush env2 fu fe (Suc fuel2) (c', w2))))
               = posts w2 @ [last (posts w')] @ rest)
       \<and> (\<forall>t c1 w1 e c2 w2. flush_body env fu fe t (c1, w1) = Inl (e, c2, w2) \<longrightarrow>
             user_queue c2 = user_queue c1 \<and> event_queue c2 = event_queue c1)"
proof -
  let ?t = "clock env (ticks w)"
  let ?w1 = "w\<lparr>ticks := Suc (ticks w)\<rparr>"
  have fl: "flush env fu fe fuel (c, w) = flush_loop env fu fe ?t fuel (c, ?w1)"
    by (simp add: flush_def utcnow_def)
  from assms(1) have st: "outcome_state (flush_loop env fu fe ?t fuel (c, ?w1)) = (c', w')"
    by (simp add: fl)
  from assms(2) have n: "length (posts ?w1) < n" by simp
  note le = flush_loop_error [OF st n assms(3,4)]
  have next_flush: "\<exists>rest. posts (snd (outcome_state (flush env2 fu fe (Suc fuel2) (c', w2))))
               = posts w2 @ [last (posts w')] @ rest" for env2 fuel2 w2
  proof -
    from le have s: "send (config c')" and lc: "loop_cond fu fe c'"
      and d: "dumps_ok (build_request fu fe c')"
      and l: "last (posts w') = (track_url c', build_request fu fe c')" by simp_all
    from flush_loop_first_post [OF s lc d, of env2 "clock env2 (ticks w2)" fuel2
        "w2\<lparr>ticks := Suc (ticks w2)\<rparr>"] l
    show ?thesis by (simp add: flush_def utcnow_def)
  qed
  have raised: "user_queue c2 = user_queue c1 \<and> event_queue c2 = event_queue c1"
    if "flush_body env fu fe t (c1, w1) = Inl (e, c2, w2)" for t c1 w1 e c2 w2
    using flush_body_Inl [OF that] by simp
  from le fl next_flush raised show ?thesis by auto
qed

theorem api_error_keeps_batch_witness:
  "length (posts w0) < 2
   \<and> 2 \<le> length (posts (snd (outcome_state run_err)))
   \<and> error_field env_err (take 2 (posts (snd (outcome_state run_err)))) = Some (JStr ''quota'')
   \<and> run_err = Raised (RequestException (JStr ''quota'')) (outcome_state run_err)
   \<and> user_queue (fst (outcome_state run_err)) = [u1]
   \<and> snd (last (posts (snd (outcome_state run_err))))
      = \<lparr>rb_api_key = ''APIKEY'', attributes = Some [user_as_dict u1], events = None\<rparr>
   \<and> (\<exists>rest. posts (snd (outcome_state (flush env0 True True 1 (fst (outcome_state run_err), w0))))
               = [last (posts (snd (outcome_state run_err)))] @ rest)"
proof -
  let ?c' = "fst (outcome_state run_err)" and ?w' = "snd (outcome_state run_err)"
  from run_err_value obtain c1 w1 where
    r: "run_err = Raised (RequestException (JStr ''quota'')) (c1, w1)"
    and q: "user_queue c1 = [u1]"
    and p: "map snd (posts w1)
        = [\<lparr>rb_api_key = ''APIKEY'', attributes = Some [user_as_dict u0], events = None\<rparr>,
           \<lparr>rb_api_key = ''APIKEY'', attributes = Some [user_as_dict u1], events = None\<rparr>]"
    by iprover
  have cw: "?c' = c1" "?w' = w1" unfolding r by simp_all
  from p have "length (map snd (posts w1)) = 2" by simp
  then have len: "length (posts w1) = 2" by simp
  have h1: "outcome_state (flush env_err True True 5 (c_send, w0)) = (?c', ?w')"
    by (simp add: run_err_def)
  have h2: "length (posts w0) < 2" by (simp add: w0_def)
  have h3: "2 \<le> length (posts ?w')" using len cw by simp
  have h4: "error_field env_err (take 2 (posts ?w')) = Some (JStr ''quota'')"
    using len cw by (simp add: error_field_def env_err_def json_get_def)
  note th = api_error_keeps_batch [OF h1 h2 h3 h4]
  from th have a: "run_err = Raised (RequestException (JStr ''quota'')) (outcome_state run_err)"
    by (simp add: run_err_def)
  from p len have "snd (last (posts w1))
      = \<lparr>rb_api_key = ''APIKEY'', attributes = Some [user_as_dict u1], events = None\<rparr>"
    by (cases "posts w1" rule: rev_cases) (auto simp: last_map [symmetric])
  with cw have b: "snd (last (posts ?w'))
      = \<lparr>rb_api_key = ''APIKEY'', attributes = Some [user_as_dict u1], events = None\<rparr>"
    by simp
  from th have "\<exists>rest. posts (snd (outcome_state (flush env0 True True (Suc 0) (?c', w0))))
               = posts w0 @ [last (posts ?w')] @ rest" by blast
  then have c: "\<exists>rest. posts (snd (outcome_state (flush env0 True True 1 (?c', w0))))
               = [last (posts ?w')] @ rest" by (simp add: w0_def)
  from h2 h3 h4 a q cw b c show ?thesis by simp
qed

subsection \<open>Batches of a dry run\<close>

lemma log_request_unlogged:
  "log c = None \<Longrightarrow> log_request env body (c, w) = Inr (c, w)"
  by (simp add: log_request_def)

lemma flush_users_pass:
  assumes ns: "\<not> send (config c)"
    and same: "config c = config b" "log c = log b"
    and q: "user_queue c = us @ rest" and ne: "us \<noteq> []"
    and len: "int (length us) = min (int (length (user_queue c))) (batch_size (config c))"
    and ok: "log c = None \<or> list_all (\<lambda>u. dict_ok (user_as_dict u)) us"
  shows "\<exists>c' w'. flush_body env True False t (c, w) = Inr (c', w')
           \<and> config c' = config b \<and> log c' = log b
           \<and> user_queue c' = rest \<and> event_queue c' = event_queue c
           \<and> posts w' = posts w
           \<and> (\<forall>f. logged_requests (files w' f)
                  = logged_requests (files w f)
                    @ (if log b = Some f then [users_body b us] else []))
           \<and> (log b = None \<longrightarrow> files w' = files w)
           \<and> requests c'
              = AList.update t
                  \<lparr>request = users_body b us, url = track_url b, timestamp = t,
                   re_ok = None, re_status = None, re_response = None\<rparr>
                  (requests c)"
proof -
  let ?b = "users_body c us"
  have cong: "users_body b us = ?b" "track_url b = track_url c"
    using same by (simp_all add: users_body_def track_url_def)
  from q ne have qne: "user_queue c \<noteq> []" by simp
  from qne len have ubs: "user_batch_size True c = int (length us)"
    by (simp add: user_batch_size_def)
  have ebs: "event_batch_size False c = 0" by (simp add: event_batch_size_def)
  from q have "slice_to (user_queue c) (int (length us)) = us" by (simp add: slice_to_def)
  with qne ubs have b: "build_request True False c = ?b"
    by (simp add: build_request_def users_body_def)
  from ok have dk: "log c = None \<or> dumps_ok ?b"
    by (auto simp: dumps_ok_def users_body_def list_all_iff)
  from log_request_passes [OF dk, of env w] obtain w1 where
    l: "log_request env ?b (c, w) = Inr (c, w1)" and p1: "posts w1 = posts w"
    and lg: "\<forall>f. logged_requests (files w1 f)
                = logged_requests (files w f) @ (if log c = Some f then [?b] else [])"
    by blast
  have un: "log c = None \<longrightarrow> w1 = w"
    using l log_request_unlogged [of c env ?b w] by auto
  let ?c1 = "c\<lparr>requests := AList.update t
               \<lparr>request = ?b, url = track_url c, timestamp = t,
                re_ok = None, re_status = None, re_response = None\<rparr> (requests c)\<rparr>"
  obtain c' w' where pr: "prune (int (length us)) 0 (?c1, w1) = (c', w')"
    by (cases "prune (int (length us)) 0 (?c1, w1)")
  from ne q have "slice_from (user_queue c) (int (length us)) = rest"
    by (simp add: slice_from_def)
  with prune_fields [OF pr] ne
  have f: "config c' = config c" "log c' = log c" "requests c' = requests ?c1"
    "user_queue c' = rest" "event_queue c' = event_queue c"
    "posts w' = posts w1" "files w' = files w1"
    by simp_all
  have fb: "flush_body env True False t (c, w) = Inr (c', w')"
    using b ubs ebs l ns pr by (simp add: flush_body_def Let_def)
  from fb f p1 lg un same cong show ?thesis by auto
qed

lemma flush_three_batches:
  assumes len: "length (user_queue c) = 200" and bs: "batch_size (config c) = 75"
    and ns: "\<not> send (config c)" and fuel: "3 \<le> fuel"
    and ok: "log c = None \<or> list_all (\<lambda>u. dict_ok (user_as_dict u)) (user_queue c)"
  shows "\<exists>c' w'. flush env True False fuel (c, w) = Returned RetNone (c', w')
           \<and> user_queue c' = [] \<and> event_queue c' = event_queue c \<and> posts w' = posts w
           \<and> (\<forall>f. logged_requests (files w' f)
                  = logged_requests (files w f)
                    @ (if log c = Some f
                       then [users_body c (take 75 (user_queue c)),
                             users_body c (take 75 (drop 75 (user_queue c))),
                             users_body c (drop 150 (user_queue c))]
                       else []))
           \<and> (log c = None \<longrightarrow> files w' = files w)"
proof -
  let ?q = "user_queue c"
  let ?t = "clock env (ticks w)"
  let ?w0 = "w\<lparr>ticks := Suc (ticks w)\<rparr>"
  let ?us1 = "take 75 ?q" and ?r1 = "drop 75 ?q"
  let ?us2 = "take 75 (drop 75 ?q)" and ?r2 = "drop 150 ?q"
  from fuel obtain n where n: "fuel = Suc (Suc (Suc n))"
    by (metis Suc_le_D eval_nat_numeral(3) Suc_le_mono numeral_2_eq_2 add_2_eq_Suc' le_Suc_ex numeral_3_eq_3)
  have ok_sub: "log c = None \<or> list_all (\<lambda>u. dict_ok (user_as_dict u)) xs"
    if "set xs \<subseteq> set ?q" for xs
    using ok that by (auto simp: list_all_iff)
  \<comment> \<open>first pass\<close>
  have "\<exists>c1 w1. flush_body env True False ?t (c, ?w0) = Inr (c1, w1)
           \<and> config c1 = config c \<and> log c1 = log c
           \<and> user_queue c1 = ?r1 \<and> event_queue c1 = event_queue c
           \<and> posts w1 = posts ?w0
           \<and> (\<forall>f. logged_requests (files w1 f)
                  = logged_requests (files ?w0 f)
                    @ (if log c = Some f then [users_body c ?us1] else []))
           \<and> (log c = None \<longrightarrow> files w1 = files ?w0)
           \<and> requests c1
              = AList.update ?t
                  \<lparr>request = users_body c ?us1, url = track_url c, timestamp = ?t,
                   re_ok = None, re_status = None, re_response = None\<rparr> (requests c)"
  proof (rule flush_users_pass [OF ns refl refl])
    show "?q = ?us1 @ ?r1" by simp
    show "?us1 \<noteq> []" using len by auto
    show "int (length ?us1) = min (int (length ?q)) (batch_size (config c))"
      using len bs by simp
    show "log c = None \<or> list_all (\<lambda>u. dict_ok (user_as_dict u)) ?us1"
      by (rule ok_sub) (rule set_take_subset)
  qed
  then obtain c1 w1 where p1: "flush_body env True False ?t (c, ?w0) = Inr (c1, w1)"
    and c1: "config c1 = config c" "log c1 = log c" "user_queue c1 = ?r1"
      "event_queue c1 = event_queue c" "posts w1 = posts w"
    and l1: "\<forall>f. logged_requests (files w1 f)
                  = logged_requests (files w f)
                    @ (if log c = Some f then [users_body c ?us1] else [])"
    and f1: "log c = None \<longrightarrow> files w1 = files w"
    and r1: "requests c1
              = AList.update ?t
                  \<lparr>request = users_body c ?us1, url = track_url c, timestamp = ?t,
                   re_ok = None, re_status = None, re_response = None\<rparr> (requests c)"
    by auto
  \<comment> \<open>second pass\<close>
  have ns1: "\<not> send (config c1)" using ns c1 by simp
  have "\<exists>c2 w2. flush_body env True False ?t (c1, w1) = Inr (c2, w2)
           \<and> config c2 = config c \<and> log c2 = log c
           \<and> user_queue c2 = ?r2 \<and> event_queue c2 = event_queue c1
           \<and> posts w2 = posts w1
           \<and> (\<forall>f. logged_requests (files w2 f)
                  = logged_requests (files w1 f)
                    @ (if log c = Some f then [users_body c ?us2] else []))
           \<and> (log c = None \<longrightarrow> files w2 = files w1)
           \<and> requests c2
              = AList.update ?t
                  \<lparr>request = users_body c ?us2, url = track_url c, timestamp = ?t,
                   re_ok = None, re_status = None, re_response = None\<rparr> (requests c1)"
  proof (rule flush_users_pass [OF ns1 c1(1,2)])
    have "take 75 ?r1 @ drop 75 ?r1 = ?r1" by (rule append_take_drop_id)
    moreover have "drop 75 ?r1 = ?r2" by simp
    ultimately have "?us2 @ ?r2 = ?r1" by (simp only:)
    then show "user_queue c1 = ?us2 @ ?r2" using c1(3) by (simp only:)
    show "?us2 \<noteq> []" using len by auto
    show "int (length ?us2) = min (int (length (user_queue c1))) (batch_size (config c1))"
      using len bs c1 by simp
    have "set ?us2 \<subseteq> set ?q"
      by (meson set_take_subset set_drop_subset subset_trans)
    then show "log c1 = None \<or> list_all (\<lambda>u. dict_ok (user_as_dict u)) ?us2"
      using ok_sub c1 by simp
  qed
  then obtain c2 w2 where p2: "flush_body env True False ?t (c1, w1) = Inr (c2, w2)"
    and c2: "config c2 = config c" "log c2 = log c" "user_queue c2 = ?r2"
      "event_queue c2 = event_queue c" "posts w2 = posts w"
    and l2: "\<forall>f. logged_requests (files w2 f)
                  = logged_requests (files w1 f)
                    @ (if log c = Some f then [users_body c ?us2] else [])"
    and f2: "log c = None \<longrightarrow> files w2 = files w1"
    and r2: "requests c2
              = AList.update ?t
                  \<lparr>request = users_body c ?us2, url = track_url c, timestamp = ?t,
                   re_ok = None, re_status = None, re_response = None\<rparr> (requests c1)"
    using c1(4,5) by auto
  \<comment> \<open>third pass\<close>
  have ns2: "\<not> send (config c2)" using ns c2 by simp
  have "\<exists>c3 w3. flush_body env True False ?t (c2, w2) = Inr (c3, w3)
           \<and> config c3 = config c \<and> log c3 = log c
           \<and> user_queue c3 = [] \<and> event_queue c3 = event_queue c2
           \<and> posts w3 = posts w2
           \<and> (\<forall>f. logged_requests (files w3 f)
                  = logged_requests (files w2 f)
                    @ (if log c = Some f then [users_body c ?r2] else []))
           \<and> (log c = None \<longrightarrow> files w3 = files w2)
           \<and> requests c3
              = AList.update ?t
                  \<lparr>request = users_body c ?r2, url = track_url c, timestamp = ?t,
                   re_ok = None, re_status = None, re_response = None\<rparr> (requests c2)"
  proof (rule flush_users_pass [OF ns2 c2(1,2)])
    show "user_queue c2 = ?r2 @ []" using c2 by simp
    show "?r2 \<noteq> []" using len by auto
    show "int (length ?r2) = min (int (length (user_queue c2))) (batch_size (config c2))"
      using len bs c2 by simp
    have "set ?r2 \<subseteq> set ?q" by (rule set_drop_subset)
    then show "log c2 = None \<or> list_all (\<lambda>u. dict_ok (user_as_dict u)) ?r2"
      using ok_sub c2 by simp
  qed
  then obtain c3 w3 where p3: "flush_body env True False ?t (c2, w2) = Inr (c3, w3)"
    and c3: "config c3 = config c" "log c3 = log c" "user_queue c3 = []"
      "event_queue c3 = event_queue c" "posts w3 = posts w"
    and l3: "\<forall>f. logged_requests (files w3 f)
                  = logged_requests (files w2 f)
                    @ (if log c = Some f then [users_body c ?r2] else [])"
    and f3: "log c = None \<longrightarrow> files w3 = files w2"
    and r3: "requests c3
              = AList.update ?t
                  \<lparr>request = users_body c ?r2, url = track_url c, timestamp = ?t,
                   re_ok = None, re_status = None, re_response = None\<rparr> (requests c2)"
    using c2(4,5) by auto
  \<comment> \<open>the loop\<close>
  have lc0: "loop_cond True False c" using len by (auto simp: loop_cond_def)
  have lc1: "loop_cond True False c1" using len c1 by (auto simp: loop_cond_def)
  have lc2: "loop_cond True False c2" using len c2 by (auto simp: loop_cond_def)
  have lc3: "\<not> loop_cond True False c3" using c3 by (simp add: loop_cond_def)
  have "flush_loop env True False ?t fuel (c, ?w0) = Returned RetNone (c3, w3)"
    unfolding n using lc0 lc1 lc2 lc3 p1 p2 p3 by (cases n) simp_all
  then have fl: "flush env True False fuel (c, w) = Returned RetNone (c3, w3)"
    by (simp add: flush_def utcnow_def)
  have lg: "\<forall>f. logged_requests (files w3 f)
                  = logged_requests (files w f)
                    @ (if log c = Some f
                       then [users_body c ?us1, users_body c ?us2, users_body c ?r2]
                       else [])"
    using l1 l2 l3 by simp
  have fs: "log c = None \<longrightarrow> files w3 = files w" using f1 f2 f3 by simp
  from fl c3 lg fs show ?thesis by auto
qed


text \<open>
  Claim C4 as stated fails where file logging is off: 200 users, batch size 75,
  \<^verbatim>\<open>send\<close> off and \<^verbatim>\<open>log\<close> \<^verbatim>\<open>None\<close>. The flush returns and no file holds a logged
  request body: the writes are under \<^verbatim>\<open>if self.log is not None\<close>.
\<close>

theorem three_bodies_not_logged:
  "\<exists>c' w'. flush env0 True False 3 (c_200\<lparr>log := None\<rparr>, w0) = Returned RetNone (c', w')
     \<and> user_queue c' = []
     \<and> (\<forall>f. logged_requests (files w' f) = [])"
proof -
  let ?c = "c_200\<lparr>log := None\<rparr>"
  have h: "length (user_queue ?c) = 200" "batch_size (config ?c) = 75"
    "\<not> send (config ?c)" "(3::nat) \<le> 3"
    "log ?c = None \<or> list_all (\<lambda>u. dict_ok (user_as_dict u)) (user_queue ?c)"
    by (simp_all add: c_200_def c0_def cfg0_def)
  from flush_three_batches [OF h, of env0 w0] obtain c' w' where
    r: "flush env0 True False 3 (?c, w0) = Returned RetNone (c', w')"
    and q: "user_queue c' = []"
    and f: "log ?c = None \<longrightarrow> files w' = files w0"
    by iprover
  from f have "\<forall>f. logged_requests (files w' f) = []" by (simp add: w0_def)
  with r q show ?thesis by iprover
qed

text \<open>
  Claim C4, amended. Given 200 pending users, batch size 75, \<^verbatim>\<open>send\<close> off and file
  logging on (with users that serialise to JSON), one call
  \<^verbatim>\<open>flush(flush_users=True, flush_events=False)\<close> with fuel for three passes returns after
  writing exactly three request bodies to the log file, whose attributes are the
  serialised first 75, next 75 and last 50 users, in queue order. With file logging off
  the call returns the same way and writes no file. The user queue is empty afterwards,
  the event queue is untouched and nothing is posted.
\<close>

theorem dry_flush_of_200_users:
  assumes "length (user_queue c) = 200" and "batch_size (config c) = 75"
    and "\<not> send (config c)" and "3 \<le> fuel"
    and "log c = None \<or> list_all (\<lambda>u. dict_ok (user_as_dict u)) (user_queue c)"
  shows "\<exists>c' w' us1 us2 us3.
           user_queue c = us1 @ us2 @ us3
           \<and> length us1 = 75 \<and> length us2 = 75 \<and> length us3 = 50
           \<and> map (\<lambda>b. map_option length (attributes b))
                 [users_body c us1, users_body c us2, users_body c us3]
               = [Some 75, Some 75, Some 50]
           \<and> flush env True False fuel (c, w) = Returned RetNone (c', w')
           \<and> user_queue c' = [] \<and> event_queue c' = event_queue c \<and> posts w' = posts w
           \<and> (\<forall>f. logged_requests (files w' f)
                  = logged_requests (files w f)
                    @ (if log c = Some f
                       then [users_body c us1, users_body c us2, users_body c us3]
                       else []))
           \<and> (log c = None \<longrightarrow> files w' = files w)"
proof -
  let ?us1 = "take 75 (user_queue c)"
  let ?us2 = "take 75 (drop 75 (user_queue c))"
  let ?us3 = "drop 150 (user_queue c)"
  have "take 75 (drop 75 (user_queue c)) @ drop 75 (drop 75 (user_queue c))
        = drop 75 (user_queue c)"
    by (rule append_take_drop_id)
  then have "?us2 @ ?us3 = drop 75 (user_queue c)" by simp
  then have "?us1 @ ?us2 @ ?us3 = user_queue c" by simp
  then have split: "user_queue c = ?us1 @ ?us2 @ ?us3" by (rule sym)
  have lens: "length ?us1 = 75" "length ?us2 = 75" "length ?us3 = 50"
    using assms(1) by simp_all
  have attrs: "map (\<lambda>b. map_option length (attributes b))
                 [users_body c ?us1, users_body c ?us2, users_body c ?us3]
               = [Some 75, Some 75, Some 50]"
    using lens by (simp add: users_body_def)
  from flush_three_batches [OF assms, of env w] obtain c' w' where
    "flush env True False fuel (c, w) = Returned RetNone (c', w')"
    "user_queue c' = []" "event_queue c' = event_queue c" "posts w' = posts w"
    "\<forall>f. logged_requests (files w' f)
                  = logged_requests (files w f)
                    @ (if log c = Some f
                       then [users_body c ?us1, users_body c ?us2, users_body c ?us3]
                       else [])"
    "log c = None \<longrightarrow> files w' = files w"
    by iprover
  with split lens attrs show ?thesis
    by (intro exI [of _ c'] exI [of _ w'] exI [of _ ?us1] exI [of _ ?us2] exI [of _ ?us3])
       simp
qed

theorem dry_flush_of_200_users_witness:
  "length (user_queue c_200) = 200 \<and> batch_size (config c_200) = 75
   \<and> \<not> send (config c_200) \<and> log c_200 = Some ''braze.log''
   \<and> (\<exists>c' w'. flush env0 True False 3 (c_200, w0) = Returned RetNone (c', w')
         \<and> user_queue c' = [] \<and> event_queue c' = [e0] \<and> posts w' = []
         \<and> map (\<lambda>b. map_option length (attributes b))
               (logged_requests (files w' ''braze.log''))
             = [Some 75, Some 75, Some 50])"
proof -
  have h: "length (user_queue c_200) = 200" "batch_size (config c_200) = 75"
    "\<not> send (config c_200)" "(3::nat) \<le> 3"
    by (simp_all add: c_200_def c0_def cfg0_def)
  have "dict_ok (user_as_dict u1)"
    by (simp add: dict_ok_def user_as_dict_def u1_def)
  then have ok: "log c_200 = None \<or> list_all (\<lambda>u. dict_ok (user_as_dict u)) (user_queue c_200)"
    by (simp add: list_all_iff c_200_def)
  from dry_flush_of_200_users [OF h ok, of env0 w0] obtain c' w' us1 us2 us3 where
    a: "map (\<lambda>b. map_option length (attributes b))
                 [users_body c_200 us1, users_body c_200 us2, users_body c_200 us3]
               = [Some 75, Some 75, Some 50]"
    and r: "flush env0 True False 3 (c_200, w0) = Returned RetNone (c', w')"
    and q: "user_queue c' = []" "event_queue c' = event_queue c_200" "posts w' = posts w0"
    and l: "\<forall>f. logged_requests (files w' f)
                  = logged_requests (files w0 f)
                    @ (if log c_200 = Some f
                       then [users_body c_200 us1, users_body c_200 us2, users_body c_200 us3]
                       else [])"
    by iprover
  have lg: "log c_200 = Some ''braze.log''" by (simp add: c_200_def c0_def)
  from l lg have "logged_requests (files w' ''braze.log'')
      = [users_body c_200 us1, users_body c_200 us2, users_body c_200 us3]"
    by (simp add: w0_def)
  with a have m: "map (\<lambda>b. map_option length (attributes b))
               (logged_requests (files w' ''braze.log''))
             = [Some 75, Some 75, Some 50]" by simp
  from q have q': "event_queue c' = [e0]" "posts w' = []"
    by (simp_all add: c_200_def w0_def)
  from r q(1) q' m have "\<exists>c' w'. flush env0 True False 3 (c_200, w0) = Returned RetNone (c', w')
         \<and> user_queue c' = [] \<and> event_queue c' = [e0] \<and> posts w' = []
         \<and> map (\<lambda>b. map_option length (attributes b))
               (logged_requests (files w' ''braze.log''))
             = [Some 75, Some 75, Some 50]"
    by iprover
  with h lg show ?thesis by iprover
qed

end
